theory Spec2Isabelle
  imports Complex_Main
begin

section \<open>Arrays\<close>

text \<open>
  A numpy array is its shape and its elements in row-major (C) order. A 0-dimensional
  array (what \<^verbatim>\<open>np.asarray\<close> makes of a Python float) has shape \<open>[]\<close> and one element.
  Elements of type float64 are modelled as real numbers, and arithmetic on them is
  exact: rounding, overflow, infinities and NaN are outside the model. The one
  exception is \<open>airmass_ag_f64\<close>, which rounds every operation of \<open>airmass_ag\<close>.
\<close>

record 'a ndarray =
  shape :: "nat list"
  data :: "'a list"

definition scalar :: "'a \<Rightarrow> 'a ndarray" where
  "scalar v = \<lparr>shape = [], data = [v]\<rparr>"

definition array1 :: "'a list \<Rightarrow> 'a ndarray" where
  "array1 xs = \<lparr>shape = [length xs], data = xs\<rparr>"

definition size_nd :: "'a ndarray \<Rightarrow> nat" where
  "size_nd a = prod_list (shape a)"

definition wf_nd :: "'a ndarray \<Rightarrow> bool" where
  "wf_nd a = (length (data a) = prod_list (shape a))"

text \<open>A unary numpy function, or an operation with a Python float, works element by element.\<close>

definition ufunc :: "('a \<Rightarrow> 'b) \<Rightarrow> 'a ndarray \<Rightarrow> 'b ndarray" where
  "ufunc f a = \<lparr>shape = shape a, data = map f (data a)\<rparr>"

section \<open>airmass\_ag and airglow\_scattering\<close>

definition deg2rad :: "real \<Rightarrow> real" where
  "deg2rad x = x * (pi / 180)"

text \<open>
  \<^verbatim>\<open>z = np.asarray(z)\<close>
  \<^verbatim>\<open>return (1 - 0.972 * np.sin(np.deg2rad(z)) ** 2) ** -0.5\<close>
\<close>

definition airmass_ag :: "real ndarray \<Rightarrow> real ndarray" where
  "airmass_ag z =
     ufunc (\<lambda>b. b powr (- 0.5))
       (ufunc (\<lambda>t. 1 - t)
         (ufunc (\<lambda>s. 0.972 * s)
           (ufunc (\<lambda>s. s ^ 2)
             (ufunc sin (ufunc deg2rad z)))))"

text \<open>
  \<^verbatim>\<open>x = np.log10(airmass_ag(z))\<close>
  \<^verbatim>\<open>fR = 1.669 * x - 0.146\<close>
  \<^verbatim>\<open>fM = 1.732 * x - 0.318\<close>
  \<^verbatim>\<open>return fR, fM\<close>
\<close>

definition airglow_scattering :: "real ndarray \<Rightarrow> real ndarray \<times> real ndarray" where
  "airglow_scattering z =
     (let x = ufunc (log 10) (airmass_ag z);
          fR = ufunc (\<lambda>v. v - 0.146) (ufunc (\<lambda>v. 1.669 * v) x);
          fM = ufunc (\<lambda>v. v - 0.318) (ufunc (\<lambda>v. 1.732 * v) x)
      in (fR, fM))"

text \<open>The base of the power in \<open>airmass_ag\<close> and the value at one zenith angle (in degrees).\<close>

definition airmass_base :: "real \<Rightarrow> real" where
  "airmass_base v = 1 - 0.972 * (sin (deg2rad v)) ^ 2"

definition airmass_at :: "real \<Rightarrow> real" where
  "airmass_at v = airmass_base v powr (- 0.5)"

section \<open>airmass\_ag in float64 arithmetic\<close>

text \<open>
  A float64 is a real number, and an operation of IEEE 754 rounds its exact result: to
  the nearest float64, a tie to the one with an even last digit. \<open>ulp x\<close> is the
  distance between the float64 values around \<open>x\<close>: 52 binary digits below the leading
  one, and \<open>2 powr (- 1074)\<close> in the subnormal range. Overflow is not modelled: on
  zenith angles of \<open>[0, 88]\<close> degrees no value of \<open>airmass_ag\<close> exceeds 6.
\<close>

definition round_even :: "real \<Rightarrow> int" where
  "round_even t =
     (let f = \<lfloor>t\<rfloor>; r = t - of_int f
      in if r < 1 / 2 then f else if 1 / 2 < r then f + 1 else if even f then f else f + 1)"

definition fexp :: "real \<Rightarrow> int" where
  "fexp x = max \<lfloor>log 2 \<bar>x\<bar>\<rfloor> (- 1022)"

definition ulp :: "real \<Rightarrow> real" where
  "ulp x = 2 powr (of_int (fexp x) - 52)"

definition fl :: "real \<Rightarrow> real" where
  "fl x = (if x = 0 then 0 else ulp x * of_int (round_even (x / ulp x)))"

text \<open>
  \<open>fl x\<close> is the float64 nearest to \<open>x\<close>, so \<open>fl 0.972\<close> is the value of the
  literal \<^verbatim>\<open>0.972\<close>. The product and the difference of two float64 values:
\<close>

definition fmul :: "real \<Rightarrow> real \<Rightarrow> real" where
  "fmul a b = fl (a * b)"

definition fsub :: "real \<Rightarrow> real \<Rightarrow> real" where
  "fsub a b = fl (a - b)"

text \<open>
  \<^verbatim>\<open>np.deg2rad(x)\<close> is the product of \<open>x\<close> and the float64 constant \<open>pi / 180\<close>.
\<close>

definition deg2rad_f64 :: "real \<Rightarrow> real" where
  "deg2rad_f64 x = fmul x (fl (fl pi / 180))"

text \<open>
  \<^verbatim>\<open>np.sin\<close> and the power with the exponent \<open>- 0.5\<close> are the functions \<open>sin\<close> and
  \<open>pow\<close> of the C library, which are not part of the sources: they are parameters.
\<close>

record libm =
  sin_f :: "real \<Rightarrow> real"
  pow_f :: "real \<Rightarrow> real \<Rightarrow> real"

text \<open>
  \<open>airmass_ag\<close> as float64 computes it: the same operations, each rounded. The square
  \<^verbatim>\<open>** 2\<close> is a product, and the constants \<open>1\<close> and \<open>- 0.5\<close> are float64 values.
\<close>

definition airmass_ag_f64 :: "libm \<Rightarrow> real ndarray \<Rightarrow> real ndarray" where
  "airmass_ag_f64 lm z =
     ufunc (\<lambda>b. pow_f lm b (- 0.5))
       (ufunc (\<lambda>t. fsub 1 t)
         (ufunc (\<lambda>s. fmul (fl 0.972) s)
           (ufunc (\<lambda>s. fmul s s)
             (ufunc (sin_f lm) (ufunc deg2rad_f64 z)))))"

text \<open>Its value at one zenith angle.\<close>

definition airmass_f64_at :: "libm \<Rightarrow> real \<Rightarrow> real" where
  "airmass_f64_at lm v =
     pow_f lm (fsub 1 (fmul (fl 0.972) (fmul (sin_f lm (deg2rad_f64 v))
                                             (sin_f lm (deg2rad_f64 v))))) (- 0.5)"

text \<open>
  What the monotonicity of \<open>airmass_ag\<close> asks of the library: on \<open>[0, pi / 2]\<close> its
  \<open>sin\<close> does not decrease and stays in \<open>[0, 1]\<close>, and its \<open>pow\<close> with the exponent
  \<open>- 0.5\<close> does not increase on positive bases. The library that rounds the exact
  results is one such.
\<close>

definition libm_ok :: "libm \<Rightarrow> bool" where
  "libm_ok lm =
     ((\<forall>x y. 0 \<le> x \<and> x \<le> y \<and> y \<le> pi / 2 \<longrightarrow> sin_f lm x \<le> sin_f lm y)
      \<and> (\<forall>x. 0 \<le> x \<and> x \<le> pi / 2 \<longrightarrow> 0 \<le> sin_f lm x \<and> sin_f lm x \<le> 1)
      \<and> (\<forall>a b. 0 < a \<and> a \<le> b \<longrightarrow> pow_f lm b (- 0.5) \<le> pow_f lm a (- 0.5)))"

definition libm_rounded :: libm where
  "libm_rounded = \<lparr>sin_f = (\<lambda>x. fl (sin x)), pow_f = (\<lambda>b e. fl (b powr e))\<rparr>"

section \<open>Errors\<close>

text \<open>
  The exceptions the code can raise. The \<^verbatim>\<open>assert\<close> statement of Python raises an
  AssertionError that carries the message written after the condition, the empty
  string when none is written. ValueError is what numpy raises when two shapes do not
  broadcast, IndexError what it raises for an index out of range.
\<close>

datatype error = AssertionError string | ValueError | IndexError

definition bind_err :: "error + 'a \<Rightarrow> ('a \<Rightarrow> error + 'b) \<Rightarrow> error + 'b" where
  "bind_err r f = (case r of Inl e \<Rightarrow> Inl e | Inr v \<Rightarrow> f v)"

section \<open>Broadcasting\<close>

text \<open>
  numpy aligns two shapes at their last axes; two axes are compatible when they are
  equal or one of them is 1, and a missing leading axis counts as 1.
\<close>

definition bc_dim :: "nat \<Rightarrow> nat \<Rightarrow> nat option" where
  "bc_dim a b =
     (if a = b then Some a else if a = 1 then Some b else if b = 1 then Some a else None)"

fun bc_rev :: "nat list \<Rightarrow> nat list \<Rightarrow> nat list option" where
  "bc_rev [] ys = Some ys"
| "bc_rev (x # xs) [] = Some (x # xs)"
| "bc_rev (x # xs) (y # ys) =
     (case bc_dim x y of
        None \<Rightarrow> None
      | Some d \<Rightarrow> (case bc_rev xs ys of None \<Rightarrow> None | Some ds \<Rightarrow> Some (d # ds)))"

definition broadcast_shapes :: "nat list \<Rightarrow> nat list \<Rightarrow> nat list option" where
  "broadcast_shapes s t = map_option rev (bc_rev (rev s) (rev t))"

text \<open>
  The element of an operand of shape \<open>s\<close> that position \<open>k\<close> (row-major) of the
  result of shape \<open>out\<close> reads: along an axis of size 1 the operand is repeated, and so
  it is along the leading axes it does not have. Both shapes are given last axis first.
\<close>

fun src_index_rev :: "nat list \<Rightarrow> nat list \<Rightarrow> nat \<Rightarrow> nat" where
  "src_index_rev (a # as) (d # ds) k =
     (if a = 1 then 0 else k mod d) + a * src_index_rev as ds (k div d)"
| "src_index_rev [] ds k = 0"
| "src_index_rev (a # as) [] k = 0"

definition src_index :: "nat list \<Rightarrow> nat list \<Rightarrow> nat \<Rightarrow> nat" where
  "src_index s out k = src_index_rev (rev s) (rev out) k"

text \<open>A binary operation of numpy on two arrays: \<^verbatim>\<open>a * b\<close>, \<^verbatim>\<open>a ** b\<close>.\<close>

definition broadcast2 ::
  "('a \<Rightarrow> 'b \<Rightarrow> 'c) \<Rightarrow> 'a ndarray \<Rightarrow> 'b ndarray \<Rightarrow> error + 'c ndarray" where
  "broadcast2 f a b =
     (case broadcast_shapes (shape a) (shape b) of
        None \<Rightarrow> Inl ValueError
      | Some s \<Rightarrow>
          Inr \<lparr>shape = s,
               data = map (\<lambda>k. f (data a ! src_index (shape a) s k)
                                  (data b ! src_index (shape b) s k))
                          [0..<prod_list s]\<rparr>)"

text \<open>
  The in-place \<^verbatim>\<open>a += b\<close>: the result is written into \<open>a\<close>, so the broadcast shape
  has to be the shape of \<open>a\<close>; numpy raises ValueError otherwise.
\<close>

definition iadd :: "real ndarray \<Rightarrow> real ndarray \<Rightarrow> error + real ndarray" where
  "iadd a b =
     (case broadcast_shapes (shape a) (shape b) of
        None \<Rightarrow> Inl ValueError
      | Some s \<Rightarrow> if s = shape a then broadcast2 (+) a b else Inl ValueError)"

definition zeros_like :: "real ndarray \<Rightarrow> real ndarray" where
  "zeros_like a = ufunc (\<lambda>_. 0) a"

section \<open>Deduplication of the zenith angles\<close>

text \<open>\<^verbatim>\<open>np.unique(z)\<close>: the distinct elements of \<open>z\<close>, sorted, as a 1-D array.\<close>

definition unique :: "real ndarray \<Rightarrow> real ndarray" where
  "unique z = array1 (sort (remdups (data z)))"

text \<open>
  \<^verbatim>\<open>np.searchsorted(a, v)\<close> (side left): for each element of \<open>v\<close> the first position of
  the sorted 1-D array \<open>a\<close> whose element is not below it.
\<close>

definition searchsorted :: "real ndarray \<Rightarrow> real ndarray \<Rightarrow> nat ndarray" where
  "searchsorted a v = ufunc (\<lambda>x. length (takeWhile (\<lambda>u. u < x) (data a))) v"

text \<open>\<^verbatim>\<open>np.squeeze(z, -1)\<close> drops the last axis, which must have size 1.\<close>

definition squeeze_last :: "'a ndarray \<Rightarrow> error + 'a ndarray" where
  "squeeze_last z =
     (case shape z of
        [] \<Rightarrow> Inl ValueError
      | _ # _ \<Rightarrow> if last (shape z) = 1 then Inr (z\<lparr>shape := butlast (shape z)\<rparr>)
                else Inl ValueError)"

text \<open>\<^verbatim>\<open>a.reshape(-1, 1)\<close>: the elements as one column.\<close>

definition reshape_col :: "'a ndarray \<Rightarrow> 'a ndarray" where
  "reshape_col a = \<lparr>shape = [length (data a), 1], data = data a\<rparr>"

text \<open>
  \<^verbatim>\<open>a[idx]\<close> with an integer array: the sub-arrays of \<open>a\<close> along its first axis that
  \<open>idx\<close> names, in the shape of \<open>idx\<close>. The indices here come from \<open>searchsorted\<close> and
  are never negative.
\<close>

definition take_rows :: "'a ndarray \<Rightarrow> nat ndarray \<Rightarrow> error + 'a ndarray" where
  "take_rows a idx =
     (case shape a of
        [] \<Rightarrow> Inl IndexError
      | n # rest \<Rightarrow>
          if list_all (\<lambda>i. i < n) (data idx)
          then Inr \<lparr>shape = shape idx @ rest,
                    data = concat (map (\<lambda>i. take (prod_list rest)
                                               (drop (i * prod_list rest) (data a)))
                                       (data idx))\<rparr>
          else Inl IndexError)"

text \<open>
  Lines 96 to 105 of \<^verbatim>\<open>get_airglow\<close>. The result is the array of zenith angles the
  calculation runs on and \<open>idx_out\<close>, which is \<open>None\<close> when \<^verbatim>\<open>z_compressed\<close> is False.
  \<^verbatim>\<open>z.shape[-1]\<close> of a 0-dimensional array raises IndexError.
\<close>

definition compress_z :: "real ndarray \<Rightarrow> error + real ndarray \<times> nat ndarray option" where
  "compress_z z =
     (let z_unique = unique z in
      if 4 * size_nd z_unique < 3 * size_nd z then
        (case shape z of
           [] \<Rightarrow> Inl IndexError
         | _ # _ \<Rightarrow>
             if last (shape z) = 1
             then bind_err (squeeze_last z) (\<lambda>zs.
                    Inr (reshape_col z_unique, Some (searchsorted z_unique zs)))
             else Inl (AssertionError []))
      else Inr (z, None))"

section \<open>The collaborators of the pipeline\<close>

text \<open>
  The atmosphere table that \<^verbatim>\<open>skysim.utils.data.get('atmosphere')\<close> returns: its data
  file is not part of the sources, so the table is a parameter. Each column is a 1-D
  array.
\<close>

record atmosphere =
  wavelength :: "real list"
  airglow_cont :: "real list"
  airglow_line :: "real list"
  trans_ma :: "real list"

text \<open>
  The functions of \<^verbatim>\<open>skysim.utils.resample\<close> and \<^verbatim>\<open>skysim.transmission\<close> are not
  part of the sources either; they are parameters too: \<open>tau0R lam p H\<close> and \<open>tau0M lam\<close>
  are the optical depths, \<open>resample_row target source values\<close> resamples one spectrum
  (a 1-D array of values on the source grid) to the target grid.
\<close>

record collaborators =
  resample_row :: "real list \<Rightarrow> real list \<Rightarrow> real list \<Rightarrow> real list"
  tau0R :: "real list \<Rightarrow> real ndarray \<Rightarrow> real ndarray \<Rightarrow> real ndarray"
  tau0M :: "real list \<Rightarrow> real ndarray"

text \<open>The 1-D slices of an array along its last axis.\<close>

definition rows_nd :: "'a ndarray \<Rightarrow> 'a list list" where
  "rows_nd a =
     (if shape a = [] then [data a]
      else map (\<lambda>i. take (last (shape a)) (drop (i * last (shape a)) (data a)))
             [0..<prod_list (butlast (shape a))])"

text \<open>
  Modelled from the spec: \<^verbatim>\<open>skysim.utils.resample.resample_density\<close> is missing from
  the sources. The spec gives it as
  \<^verbatim>\<open>resample_density(target_grid, source_grid, source_values) -> target_values\<close>,
  broadcasting over any leading dimensions of the source values: every slice along the
  last axis is resampled on its own, and the last axis of the result is the target grid.
\<close>

definition resample_density ::
  "(real list \<Rightarrow> real list \<Rightarrow> real list \<Rightarrow> real list)
    \<Rightarrow> real list \<Rightarrow> real list \<Rightarrow> real ndarray \<Rightarrow> real ndarray" where
  "resample_density rs target source a =
     \<lparr>shape = butlast (shape a) @ [length target],
      data = concat (map (rs target source) (rows_nd a))\<rparr>"

section \<open>get\_airglow\<close>

text \<open>
  Lines 112 to 115:
  \<^verbatim>\<open>transmission = atm['trans_ma'].data ** Xag\<close>
  \<^verbatim>\<open>cont = cont * transmission\<close>
  \<^verbatim>\<open>line = line * transmission\<close>
  The power of two floats is \<open>powr\<close>: a transmission is not negative and an airmass
  is positive, and \<open>0 powr x = 0\<close> as \<^verbatim>\<open>0.0 ** x\<close> is 0 for a positive \<open>x\<close>.
\<close>

definition apply_absorption ::
  "atmosphere \<Rightarrow> real ndarray \<Rightarrow> real ndarray \<Rightarrow> real ndarray
    \<Rightarrow> error + real ndarray \<times> real ndarray" where
  "apply_absorption atm Xag cont line =
     bind_err (broadcast2 (\<lambda>t x. t powr x) (array1 (trans_ma atm)) Xag) (\<lambda>transmission.
     bind_err (broadcast2 (*) cont transmission) (\<lambda>cont'.
     bind_err (broadcast2 (*) line transmission) (\<lambda>line'.
     Inr (cont', line'))))"

text \<open>
  Lines 122 to 130:
  \<^verbatim>\<open>fR, fM = airglow_scattering(z)\<close>
  \<^verbatim>\<open>tau0 = np.zeros_like(cont)\<close>
  \<^verbatim>\<open>if Rayleigh: tau0 += fR * skysim.transmission.tau0R(lam, p, H)\<close>
  \<^verbatim>\<open>if Mie: tau0 += fM * skysim.transmission.tau0M(lam)\<close>
  \<^verbatim>\<open>scattering = np.exp(-tau0 * Xag)\<close>
  \<^verbatim>\<open>cont = cont * scattering\<close>
  \<^verbatim>\<open>line = line * scattering\<close>
\<close>

definition apply_scattering ::
  "collaborators \<Rightarrow> real list \<Rightarrow> real ndarray \<Rightarrow> real ndarray \<Rightarrow> real ndarray
    \<Rightarrow> bool \<Rightarrow> bool \<Rightarrow> real ndarray \<Rightarrow> real ndarray \<Rightarrow> real ndarray
    \<Rightarrow> error + real ndarray \<times> real ndarray" where
  "apply_scattering cb lam z p H Rayleigh Mie Xag cont line =
     (let fR = fst (airglow_scattering z);
          fM = snd (airglow_scattering z);
          tau0 = zeros_like cont
      in
      bind_err (if Rayleigh
                then bind_err (broadcast2 (*) fR (tau0R cb lam p H)) (iadd tau0)
                else Inr tau0) (\<lambda>tau0.
      bind_err (if Mie
                then bind_err (broadcast2 (*) fM (tau0M cb lam)) (iadd tau0)
                else Inr tau0) (\<lambda>tau0.
      bind_err (broadcast2 (*) (ufunc uminus tau0) Xag) (\<lambda>t.
      let scattering = ufunc exp t in
      bind_err (broadcast2 (*) cont scattering) (\<lambda>cont'.
      bind_err (broadcast2 (*) line scattering) (\<lambda>line'.
      Inr (cont', line')))))))"

text \<open>
  Lines 107 to 130: the calculation on the array \<open>z\<close> of zenith angles, which is the
  argument of \<^verbatim>\<open>get_airglow\<close> itself when \<^verbatim>\<open>z_compressed\<close> is False.
\<close>

definition airglow_pipeline ::
  "collaborators \<Rightarrow> atmosphere \<Rightarrow> real list \<Rightarrow> real ndarray \<Rightarrow> real ndarray \<Rightarrow> real ndarray
    \<Rightarrow> bool \<Rightarrow> bool \<Rightarrow> bool \<Rightarrow> error + real ndarray \<times> real ndarray" where
  "airglow_pipeline cb atm lam z p H Rayleigh Mie absorption =
     (let cont = array1 (airglow_cont atm);
          line = array1 (airglow_line atm);
          Xag = airmass_ag z
      in
      bind_err (if absorption then apply_absorption atm Xag cont line
                else Inr (cont, line)) (\<lambda>cl.
      let ag_lam = wavelength atm;
          cont = resample_density (resample_row cb) lam ag_lam (fst cl);
          line = resample_density (resample_row cb) lam ag_lam (snd cl)
      in
      if Rayleigh \<or> Mie
      then apply_scattering cb lam z p H Rayleigh Mie Xag cont line
      else Inr (cont, line)))"

text \<open>
  Lines 132 to 135:
  \<^verbatim>\<open>if z_compressed: cont = cont[idx_out]; line = line[idx_out]\<close>
\<close>

definition assemble_output ::
  "nat ndarray option \<Rightarrow> real ndarray \<times> real ndarray \<Rightarrow> error + real ndarray \<times> real ndarray" where
  "assemble_output idx_out cl =
     (case idx_out of
        None \<Rightarrow> Inr cl
      | Some idx \<Rightarrow>
          bind_err (take_rows (fst cl) idx) (\<lambda>cont.
          bind_err (take_rows (snd cl) idx) (\<lambda>line.
          Inr (cont, line))))"

text \<open>
  \<^verbatim>\<open>get_airglow(lam, z, p, H, Rayleigh, Mie, absorption)\<close>. After
  \<^verbatim>\<open>np.atleast_1d(lam)\<close> the wavelengths, a float or a 1-D array, are a 1-D array:
  \<open>lam\<close> is the list of its elements. \<^verbatim>\<open>np.asarray(z)\<close> is \<open>z\<close> itself.
\<close>

definition get_airglow ::
  "collaborators \<Rightarrow> atmosphere \<Rightarrow> real list \<Rightarrow> real ndarray \<Rightarrow> real ndarray \<Rightarrow> real ndarray
    \<Rightarrow> bool \<Rightarrow> bool \<Rightarrow> bool \<Rightarrow> error + real ndarray \<times> real ndarray" where
  "get_airglow cb atm lam z p H Rayleigh Mie absorption =
     bind_err (compress_z z) (\<lambda>zi.
     bind_err (airglow_pipeline cb atm lam (fst zi) p H Rayleigh Mie absorption)
       (assemble_output (snd zi)))"

section \<open>get\_airglow on a store\<close>

text \<open>
  The atmosphere table is shared: the data provider caches it, and every caller reads the
  same arrays. To follow what \<^verbatim>\<open>get_airglow\<close> writes, the arrays live in a store, a list
  of arrays in which an address is a position. A computation takes the store and returns
  its result, or the error raised, and the store it leaves.
\<close>

type_synonym heap = "real ndarray list"

type_synonym 'a st = "heap \<Rightarrow> (error + 'a) \<times> heap"

definition ret :: "'a \<Rightarrow> 'a st" where
  "ret v h = (Inr v, h)"

definition bind_st :: "'a st \<Rightarrow> ('a \<Rightarrow> 'b st) \<Rightarrow> 'b st" where
  "bind_st m f h = (case m h of (Inl e, h') \<Rightarrow> (Inl e, h') | (Inr v, h') \<Rightarrow> f v h')"

text \<open>
  The result of a numpy operation is a new array at a new address, unless the operation
  raised; the result of an in-place operation replaces the array at the address of its
  first operand.
\<close>

definition alloc_result :: "error + real ndarray \<Rightarrow> nat st" where
  "alloc_result r h = (case r of Inl e \<Rightarrow> (Inl e, h) | Inr a \<Rightarrow> (Inr (length h), h @ [a]))"

definition write_result :: "nat \<Rightarrow> error + real ndarray \<Rightarrow> unit st" where
  "write_result r res h = (case res of Inl e \<Rightarrow> (Inl e, h) | Inr a \<Rightarrow> (Inr (), h[r := a]))"

definition op1 :: "(real ndarray \<Rightarrow> error + real ndarray) \<Rightarrow> nat \<Rightarrow> nat st" where
  "op1 f a h = alloc_result (f (h ! a)) h"

definition op2 ::
  "(real ndarray \<Rightarrow> real ndarray \<Rightarrow> error + real ndarray) \<Rightarrow> nat \<Rightarrow> nat \<Rightarrow> nat st" where
  "op2 f a b h = alloc_result (f (h ! a) (h ! b)) h"

definition iop1 :: "(real ndarray \<Rightarrow> error + real ndarray) \<Rightarrow> nat \<Rightarrow> unit st" where
  "iop1 f a h = write_result a (f (h ! a)) h"

text \<open>The addresses of the \<^verbatim>\<open>.data\<close> arrays of the four columns of the table.\<close>

record atmosphere_refs =
  wavelength_ref :: nat
  airglow_cont_ref :: nat
  airglow_line_ref :: nat
  trans_ma_ref :: nat

text \<open>
  Lines 112 to 115. \<^verbatim>\<open>cont = cont * transmission\<close> binds the name to the new array of
  the product; the array it was bound to is not written.
\<close>

definition apply_absorption_st ::
  "atmosphere_refs \<Rightarrow> real ndarray \<Rightarrow> nat \<Rightarrow> nat \<Rightarrow> (nat \<times> nat) st" where
  "apply_absorption_st t Xag cont line =
     bind_st (op1 (\<lambda>tm. broadcast2 (\<lambda>t x. t powr x) tm Xag) (trans_ma_ref t)) (\<lambda>transmission.
     bind_st (op2 (broadcast2 (*)) cont transmission) (\<lambda>cont'.
     bind_st (op2 (broadcast2 (*)) line transmission) (\<lambda>line'.
     ret (cont', line'))))"

text \<open>
  Lines 122 to 130. \<^verbatim>\<open>tau0\<close> is the new array of \<^verbatim>\<open>np.zeros_like(cont)\<close>, and the two
  \<^verbatim>\<open>tau0 += ...\<close> are the only in-place operations of \<^verbatim>\<open>get_airglow\<close>.
\<close>

definition apply_scattering_st ::
  "collaborators \<Rightarrow> real list \<Rightarrow> real ndarray \<Rightarrow> real ndarray \<Rightarrow> real ndarray
    \<Rightarrow> bool \<Rightarrow> bool \<Rightarrow> real ndarray \<Rightarrow> nat \<Rightarrow> nat \<Rightarrow> (nat \<times> nat) st" where
  "apply_scattering_st cb lam z p H Rayleigh Mie Xag cont line =
     (let fR = fst (airglow_scattering z);
          fM = snd (airglow_scattering z)
      in
      bind_st (op1 (\<lambda>c. Inr (zeros_like c)) cont) (\<lambda>tau0.
      bind_st (if Rayleigh
               then iop1 (\<lambda>t. bind_err (broadcast2 (*) fR (tau0R cb lam p H)) (iadd t)) tau0
               else ret ()) (\<lambda>_.
      bind_st (if Mie
               then iop1 (\<lambda>t. bind_err (broadcast2 (*) fM (tau0M cb lam)) (iadd t)) tau0
               else ret ()) (\<lambda>_.
      bind_st (op1 (\<lambda>t. bind_err (broadcast2 (*) (ufunc uminus t) Xag)
                            (\<lambda>e. Inr (ufunc exp e))) tau0) (\<lambda>scattering.
      bind_st (op2 (broadcast2 (*)) cont scattering) (\<lambda>cont'.
      bind_st (op2 (broadcast2 (*)) line scattering) (\<lambda>line'.
      ret (cont', line'))))))))"

text \<open>Lines 132 to 135: indexing with an integer array makes a new array.\<close>

definition assemble_output_st :: "nat ndarray option \<Rightarrow> nat \<times> nat \<Rightarrow> (nat \<times> nat) st" where
  "assemble_output_st idx_out cl =
     (case idx_out of
        None \<Rightarrow> ret cl
      | Some idx \<Rightarrow>
          bind_st (op1 (\<lambda>c. take_rows c idx) (fst cl)) (\<lambda>cont.
          bind_st (op1 (\<lambda>l. take_rows l idx) (snd cl)) (\<lambda>line.
          ret (cont, line))))"

text \<open>
  \<^verbatim>\<open>get_airglow\<close> with the table in the store. The three \<^verbatim>\<open>.data.copy()\<close> make new
  arrays; the arrays of zenith angles derive from the argument \<open>z\<close> alone and stay
  values. The result is the pair of addresses of \<^verbatim>\<open>cont\<close> and \<^verbatim>\<open>line\<close>.
\<close>

definition get_airglow_st ::
  "collaborators \<Rightarrow> atmosphere_refs \<Rightarrow> real list \<Rightarrow> real ndarray \<Rightarrow> real ndarray
    \<Rightarrow> real ndarray \<Rightarrow> bool \<Rightarrow> bool \<Rightarrow> bool \<Rightarrow> (nat \<times> nat) st" where
  "get_airglow_st cb t lam z p H Rayleigh Mie absorption =
     bind_st (Pair (compress_z z)) (\<lambda>zi.
     bind_st (op1 Inr (airglow_cont_ref t)) (\<lambda>cont.
     bind_st (op1 Inr (airglow_line_ref t)) (\<lambda>line.
     let Xag = airmass_ag (fst zi) in
     bind_st (if absorption then apply_absorption_st t Xag cont line
              else ret (cont, line)) (\<lambda>cl.
     bind_st (op1 Inr (wavelength_ref t)) (\<lambda>ag_lam.
     bind_st (op2 (\<lambda>g c. Inr (resample_density (resample_row cb) lam (data g) c))
                ag_lam (fst cl)) (\<lambda>cont.
     bind_st (op2 (\<lambda>g l. Inr (resample_density (resample_row cb) lam (data g) l))
                ag_lam (snd cl)) (\<lambda>line.
     bind_st (if Rayleigh \<or> Mie
              then apply_scattering_st cb lam (fst zi) p H Rayleigh Mie Xag cont line
              else ret (cont, line))
       (assemble_output_st (snd zi)))))))))"

text \<open>The table that the store holds at the addresses \<open>t\<close>.\<close>

definition table_at :: "heap \<Rightarrow> atmosphere_refs \<Rightarrow> atmosphere" where
  "table_at h t =
     \<lparr>wavelength = data (h ! wavelength_ref t),
      airglow_cont = data (h ! airglow_cont_ref t),
      airglow_line = data (h ! airglow_line_ref t),
      trans_ma = data (h ! trans_ma_ref t)\<rparr>"

definition table_in_heap :: "heap \<Rightarrow> atmosphere_refs \<Rightarrow> bool" where
  "table_in_heap h t =
     (wavelength_ref t < length h \<and> airglow_cont_ref t < length h
      \<and> airglow_line_ref t < length h \<and> trans_ma_ref t < length h)"

definition is_1d :: "'a ndarray \<Rightarrow> bool" where
  "is_1d a = (shape a = [length (data a)])"

text \<open>A computation keeps the first \<open>n\<close> arrays of the store.\<close>

definition keeps :: "nat \<Rightarrow> 'a st \<Rightarrow> bool" where
  "keeps n m =
     (\<forall>h. n \<le> length h \<longrightarrow> n \<le> length (snd (m h)) \<and> take n (snd (m h)) = take n h)"

text \<open>
  The outcome of a computation on the store is the outcome \<open>v\<close> of the calculation on
  values: the same error, or addresses that hold the arrays of \<open>v\<close>.
\<close>

definition agrees ::
  "(error + nat \<times> nat) \<times> heap \<Rightarrow> error + real ndarray \<times> real ndarray \<Rightarrow> bool" where
  "agrees r v =
     (case fst r of
        Inl e \<Rightarrow> v = Inl e
      | Inr cl \<Rightarrow> fst cl < length (snd r) \<and> snd cl < length (snd r)
          \<and> v = Inr (snd r ! fst cl, snd r ! snd cl))"

definition step_ok ::
  "heap \<Rightarrow> (error + nat \<times> nat) \<times> heap \<Rightarrow> error + real ndarray \<times> real ndarray \<Rightarrow> bool" where
  "step_ok h r v = (length h \<le> length (snd r) \<and> take (length h) (snd r) = h \<and> agrees r v)"

section \<open>What the collaborators promise\<close>

text \<open>
  The columns of the atmosphere table are aligned with its wavelengths, and the optical
  depths \<open>tau0R\<close> and \<open>tau0M\<close> are 1-D arrays over the wavelengths they are given.
\<close>

definition collaborators_ok ::
  "collaborators \<Rightarrow> atmosphere \<Rightarrow> real list \<Rightarrow> real ndarray \<Rightarrow> real ndarray \<Rightarrow> bool" where
  "collaborators_ok cb atm lam p H =
     (length (airglow_cont atm) = length (trans_ma atm)
      \<and> length (airglow_line atm) = length (trans_ma atm)
      \<and> shape (tau0R cb lam p H) = [length lam]
      \<and> shape (tau0M cb lam) = [length lam])"

section \<open>The calculation for one zenith angle\<close>

text \<open>
  An array whose slices along the last axis are the lists \<open>g v\<close>, of length \<open>m\<close>, for
  the elements \<open>v\<close> of \<open>zs\<close>, and an array of shape \<open>s + (1,)\<close>: the layout of zenith
  angles that broadcasts against a wavelength axis.
\<close>

definition stacked :: "nat list \<Rightarrow> nat \<Rightarrow> ('v \<Rightarrow> 'a list) \<Rightarrow> 'v list \<Rightarrow> 'a ndarray" where
  "stacked s m g zs = \<lparr>shape = s @ [m], data = concat (map g zs)\<rparr>"

definition column :: "nat list \<Rightarrow> 'a list \<Rightarrow> 'a ndarray" where
  "column s zs = \<lparr>shape = s @ [1], data = zs\<rparr>"

text \<open>
  What \<open>get_airglow\<close> computes along the wavelength axis for one zenith angle \<open>v\<close> when
  absorption is enabled: the factor \<^verbatim>\<open>exp(-tau0 * Xag)\<close>, and the spectrum of the table
  column \<open>col\<close> after absorption, resampling and scattering.
\<close>

definition scattering_row ::
  "collaborators \<Rightarrow> real list \<Rightarrow> real ndarray \<Rightarrow> real ndarray \<Rightarrow> bool \<Rightarrow> bool \<Rightarrow> real
    \<Rightarrow> real list" where
  "scattering_row cb lam p H Rayleigh Mie v =
     (let X = airmass_at v;
          tau0 = replicate (length lam) 0;
          tau1 = (if Rayleigh
                  then map2 (+) tau0 (map ((*) (1.669 * log 10 X - 0.146))
                                        (data (tau0R cb lam p H)))
                  else tau0);
          tau2 = (if Mie
                  then map2 (+) tau1 (map ((*) (1.732 * log 10 X - 0.318))
                                        (data (tau0M cb lam)))
                  else tau1)
      in map exp (map (\<lambda>x. x * X) (map uminus tau2)))"

definition airglow_row ::
  "collaborators \<Rightarrow> atmosphere \<Rightarrow> real list \<Rightarrow> real ndarray \<Rightarrow> real ndarray
    \<Rightarrow> bool \<Rightarrow> bool \<Rightarrow> real list \<Rightarrow> real \<Rightarrow> real list" where
  "airglow_row cb atm lam p H Rayleigh Mie col v =
     (let absorbed = map2 (*) col (map (\<lambda>t. t powr airmass_at v) (trans_ma atm));
          r = resample_row cb lam (wavelength atm) absorbed
      in if Rayleigh \<or> Mie then map2 (*) r (scattering_row cb lam p H Rayleigh Mie v) else r)"

text \<open>
  Further, the optical depths have as many elements as their shape says, and a
  resampled spectrum has one value for each wavelength of the target grid.
\<close>

definition collaborators_rowwise ::
  "collaborators \<Rightarrow> atmosphere \<Rightarrow> real list \<Rightarrow> real ndarray \<Rightarrow> real ndarray \<Rightarrow> bool" where
  "collaborators_rowwise cb atm lam p H =
     (collaborators_ok cb atm lam p H
      \<and> wf_nd (tau0R cb lam p H) \<and> wf_nd (tau0M cb lam)
      \<and> (\<forall>values. length (resample_row cb lam (wavelength atm) values) = length lam))"

section \<open>Inputs to evaluate on\<close>

text \<open>
  A small table and simple collaborators to evaluate \<open>get_airglow\<close> on, and the
  wavelength grid \<^verbatim>\<open>np.linspace(300, 1100, 5)\<close> of the tests.
\<close>

definition demo_collab :: collaborators where
  "demo_collab =
     \<lparr>resample_row =
        (\<lambda>target source values. map (\<lambda>t. sum_list values / real (length values)) target),
      tau0R = (\<lambda>lam p H. array1 (map (\<lambda>l. 1 / 10) lam)),
      tau0M = (\<lambda>lam. array1 (map (\<lambda>l. 1 / 20) lam))\<rparr>"

definition demo_atm :: atmosphere where
  "demo_atm =
     \<lparr>wavelength = [300, 500, 700, 900], airglow_cont = [1, 2, 3, 4],
      airglow_line = [5, 6, 7, 8], trans_ma = [1, 0.9, 0.8, 0.7]\<rparr>"

definition test_lam :: "real list" where
  "test_lam = [300, 500, 700, 900, 1100]"

text \<open>A store that holds the small table at the addresses 0 to 3.\<close>

definition demo_heap :: heap where
  "demo_heap =
     [array1 [300, 500, 700, 900], array1 [1, 2, 3, 4], array1 [5, 6, 7, 8],
      array1 [1, 0.9, 0.8, 0.7]]"

definition demo_refs :: atmosphere_refs where
  "demo_refs =
     \<lparr>wavelength_ref = 0, airglow_cont_ref = 1, airglow_line_ref = 2, trans_ma_ref = 3\<rparr>"

section \<open>Properties of the airmass and scattering models\<close>

lemma shape_ufunc [simp]: "shape (ufunc f a) = shape a"
  by (simp add: ufunc_def)

lemma data_ufunc [simp]: "data (ufunc f a) = map f (data a)"
  by (simp add: ufunc_def)

lemma wf_ufunc [simp]: "wf_nd (ufunc f a) = wf_nd a"
  by (simp add: wf_nd_def)

lemma ufunc_scalar [simp]: "ufunc f (scalar v) = scalar (f v)"
  by (simp add: ufunc_def scalar_def)

lemma airmass_ag_eq: "airmass_ag z = ufunc airmass_at z"
  by (simp add: airmass_ag_def ufunc_def airmass_at_def airmass_base_def)

lemma shape_airmass_ag [simp]: "shape (airmass_ag z) = shape z"
  by (simp add: airmass_ag_eq)

lemma sin_sq_le_one: "(sin (x::real)) ^ 2 \<le> 1"
  using sin_cos_squared_add [of x] zero_le_power2 [of "cos x"] by linarith

lemma airmass_base_lower: "0.028 \<le> airmass_base v"
  using sin_sq_le_one [of "deg2rad v"] by (simp add: airmass_base_def)

lemma airmass_base_upper: "airmass_base v \<le> 1"
  using zero_le_power2 [of "sin (deg2rad v)"] by (simp add: airmass_base_def)

lemma airmass_base_pos: "0 < airmass_base v"
proof -
  have "(0::real) < 0.028" by simp
  also have "\<dots> \<le> airmass_base v" by (rule airmass_base_lower)
  finally show ?thesis .
qed

lemma airmass_at_ge_one: "1 \<le> airmass_at v"
proof -
  have "1 powr (- 0.5) \<le> airmass_base v powr (- 0.5)"
    by (rule powr_mono2') (use airmass_base_pos airmass_base_upper in auto)
  then show ?thesis by (simp add: airmass_at_def)
qed

lemma airmass_at_le_bound: "airmass_at v \<le> (1 - 0.972) powr (- 0.5)"
proof -
  have "airmass_base v powr (- 0.5) \<le> 0.028 powr (- 0.5)"
    by (rule powr_mono2') (use airmass_base_lower in auto)
  then show ?thesis by (simp add: airmass_at_def)
qed

lemma airmass_at_zero: "airmass_at 0 = 1"
  by (simp add: airmass_at_def airmass_base_def deg2rad_def)

lemma airmass_at_pos: "0 < airmass_at v"
  using airmass_at_ge_one [of v] by (rule less_le_trans [OF zero_less_one])

lemma airmass_bound_lt: "(1 - 0.972 :: real) powr (- 0.5) < 5.98"
proof -
  have "1 / 5.98 < sqrt (0.028::real)"
    by (rule real_less_rsqrt) (simp add: power2_eq_square)
  then have "1 / sqrt (0.028::real) < 5.98"
    by (simp add: field_simps)
  then show ?thesis
    by (simp add: powr_minus powr_half_sqrt field_simps)
qed

lemma log_airmass_lt_one: "log 10 (airmass_at v) < 1"
proof -
  have "airmass_at v \<le> (1 - 0.972) powr (- 0.5)"
    by (rule airmass_at_le_bound)
  also have "\<dots> < 5.98"
    by (rule airmass_bound_lt)
  also have "\<dots> < (10::real)"
    by simp
  finally have "airmass_at v < 10" .
  then have "log 10 (airmass_at v) < log 10 10"
    using airmass_at_pos [of v] by (intro log_less) auto
  then show ?thesis by simp
qed

lemma airmass_at_strict_mono:
  assumes "0 \<le> u" "u < v" "v \<le> 88"
  shows "airmass_at u < airmass_at v"
proof -
  have pi0: "0 < pi" by (rule pi_gt_zero)
  have a0: "0 \<le> deg2rad u" using assms pi0 by (simp add: deg2rad_def)
  have ab: "deg2rad u < deg2rad v" using assms pi0 by (simp add: deg2rad_def)
  have "v * pi \<le> 90 * pi" using assms pi0 by simp
  then have b1: "deg2rad v \<le> pi / 2" by (simp add: deg2rad_def)
  have s: "sin (deg2rad u) < sin (deg2rad v)"
    by (rule sin_monotone_2pi) (use a0 ab b1 pi0 in auto)
  have s0: "0 \<le> sin (deg2rad u)"
    by (rule sin_ge_zero) (use a0 ab b1 pi0 in auto)
  have "(sin (deg2rad u)) ^ 2 < (sin (deg2rad v)) ^ 2"
    using s s0 by (intro power_strict_mono) auto
  then have "airmass_base v < airmass_base u"
    by (simp add: airmass_base_def)
  then have "airmass_base u powr (- 0.5) < airmass_base v powr (- 0.5)"
    using airmass_base_pos [of v] by (intro powr_less_mono2_neg) auto
  then show ?thesis by (simp add: airmass_at_def)
qed

text \<open>
  Claim C6, as the specification states it: there are finite zenith angles below 90
  degrees at which the base \<open>1 - 0.972 sin\<^sup>2\<close> of the power in \<open>airmass_ag\<close> is zero, so
  that the airmass is undefined there. It fails: no real zenith angle gives a zero base.
\<close>

theorem airmass_ag_zero_base_counterexample:
  "\<not> (\<exists>v::real. v < 90 \<and> airmass_base v = 0)"
  using airmass_base_pos by (metis less_irrefl)

text \<open>
  Claim C6, amended: at every real zenith angle \<open>v\<close> the base of the power is at least
  0.028, the condition \<open>sin\<^sup>2 = 1 / 0.972\<close> is never met, and \<open>airmass_ag\<close> is the
  finite number \<open>base powr (- 0.5)\<close>, between 1 and \<open>0.028 powr (- 0.5)\<close>.
\<close>

theorem airmass_ag_no_singularity:
  "0.028 \<le> airmass_base v
   \<and> (sin (deg2rad v)) ^ 2 \<noteq> 1 / 0.972
   \<and> airmass_ag (scalar v) = scalar (airmass_base v powr (- 0.5))
   \<and> 1 \<le> airmass_base v powr (- 0.5)
   \<and> airmass_base v powr (- 0.5) \<le> 0.028 powr (- 0.5)"
proof -
  have "(sin (deg2rad v)) ^ 2 \<noteq> 1 / 0.972"
    using sin_sq_le_one [of "deg2rad v"] by auto
  moreover have "airmass_ag (scalar v) = scalar (airmass_base v powr (- 0.5))"
    by (simp add: airmass_ag_eq airmass_at_def)
  ultimately show ?thesis
    using airmass_base_lower [of v] airmass_at_ge_one [of v] airmass_at_le_bound [of v]
    by (simp add: airmass_at_def)
qed

text \<open>
  Claim C7: \<open>airglow_scattering z\<close> is the pair \<open>fR = 1.669 x - 0.146\<close> and
  \<open>fM = 1.732 x - 0.318\<close> with \<open>x = log10 (airmass_ag z)\<close>, element by element and in
  the shape of \<open>z\<close>; at the scalar \<open>z = 0\<close> it is \<open>(- 0.146, - 0.318)\<close>.
\<close>

theorem airglow_scattering_formula:
  "shape (fst (airglow_scattering z)) = shape z
   \<and> shape (snd (airglow_scattering z)) = shape z
   \<and> data (fst (airglow_scattering z))
       = map (\<lambda>a. 1.669 * log 10 a - 0.146) (data (airmass_ag z))
   \<and> data (snd (airglow_scattering z))
       = map (\<lambda>a. 1.732 * log 10 a - 0.318) (data (airmass_ag z))
   \<and> airglow_scattering (scalar 0) = (scalar (- 0.146), scalar (- 0.318))"
  by (simp add: airglow_scattering_def Let_def airmass_ag_eq airmass_at_zero)

text \<open>
  Claim C8: an element of \<open>airmass_ag z\<close> whose zenith angle lies in \<open>[0, 88.7)\<close> is at
  least 1, and \<open>airmass_ag 0\<close> is 1.
\<close>

theorem airmass_ag_ge_one:
  "(i < length (data z) \<and> 0 \<le> data z ! i \<and> data z ! i < 88.7
      \<longrightarrow> 1 \<le> data (airmass_ag z) ! i)
   \<and> airmass_ag (scalar 0) = scalar 1"
  by (simp add: airmass_ag_eq airmass_at_zero airmass_at_ge_one)

theorem airmass_ag_ge_one_witness:
  "1 \<le> data (airmass_ag (array1 [0, 45, 88])) ! 1 \<and> airmass_ag (scalar 0) = scalar 1"
  using airmass_ag_ge_one [of 1 "array1 [0, 45, 88]"] by (simp add: array1_def)

text \<open>
  In exact arithmetic \<open>airmass_ag\<close> is strictly increasing on \<open>[0, 88]\<close> degrees: of
  two zenith angles \<open>0 \<le> z1 < z2 \<le> 88\<close>, elements of the arrays \<open>z1\<close> and \<open>z2\<close>, the
  smaller has the smaller airmass.
\<close>

lemma airmass_ag_exact_strict_mono:
  "i < length (data z1) \<Longrightarrow> j < length (data z2) \<Longrightarrow> 0 \<le> data z1 ! i
   \<Longrightarrow> data z1 ! i < data z2 ! j \<Longrightarrow> data z2 ! j \<le> 88
   \<Longrightarrow> data (airmass_ag z1) ! i < data (airmass_ag z2) ! j"
  by (simp add: airmass_ag_eq airmass_at_strict_mono)

text \<open>
  Claim C10: at every element of \<open>z\<close> (every real zenith angle, so those of
  \<open>[0, 90]\<close> degrees too) the Rayleigh factor exceeds the Mie factor, their difference
  is \<open>0.172 - 0.063 log10 (airmass_ag z)\<close>, and the airmass is at most
  \<open>(1 - 0.972) powr (- 0.5)\<close>, which is below 5.98.
\<close>

theorem rayleigh_exceeds_mie:
  "i < length (data z) \<Longrightarrow>
   data (snd (airglow_scattering z)) ! i < data (fst (airglow_scattering z)) ! i
   \<and> data (fst (airglow_scattering z)) ! i - data (snd (airglow_scattering z)) ! i
       = 0.172 - 0.063 * log 10 (data (airmass_ag z) ! i)
   \<and> data (airmass_ag z) ! i \<le> (1 - 0.972) powr (- 0.5)
   \<and> (1 - 0.972) powr (- 0.5) < (5.98::real)"
  using log_airmass_lt_one [of "data z ! i"] airmass_at_le_bound [of "data z ! i"]
    airmass_bound_lt
  by (simp add: airglow_scattering_def Let_def airmass_ag_eq algebra_simps)

theorem rayleigh_exceeds_mie_witness:
  "data (snd (airglow_scattering (array1 [0, 45, 90]))) ! 2
     < data (fst (airglow_scattering (array1 [0, 45, 90]))) ! 2
   \<and> data (fst (airglow_scattering (array1 [0, 45, 90]))) ! 2
       - data (snd (airglow_scattering (array1 [0, 45, 90]))) ! 2
       = 0.172 - 0.063 * log 10 (data (airmass_ag (array1 [0, 45, 90])) ! 2)
   \<and> data (airmass_ag (array1 [0, 45, 90])) ! 2 \<le> (1 - 0.972) powr (- 0.5)
   \<and> (1 - 0.972) powr (- 0.5) < (5.98::real)"
  using rayleigh_exceeds_mie [of 2 "array1 [0, 45, 90]"] by (simp add: array1_def)

section \<open>Monotonicity of airmass\_ag in float64 arithmetic\<close>

lemma round_even_of_int [simp]: "round_even (of_int n) = n"
  by (simp add: round_even_def)

lemma round_even_bounds: "\<lfloor>t\<rfloor> \<le> round_even t" "round_even t \<le> \<lfloor>t\<rfloor> + 1"
  by (simp_all add: round_even_def Let_def)

lemma round_even_le: "of_int (round_even t) \<le> t + 1 / 2"
  unfolding round_even_def Let_def by (auto simp: not_less) linarith+

lemma round_even_mono: "s \<le> t \<Longrightarrow> round_even s \<le> round_even t"
proof -
  assume st: "s \<le> t"
  then have f: "\<lfloor>s\<rfloor> \<le> \<lfloor>t\<rfloor>" by (rule floor_mono)
  show ?thesis
  proof (cases "\<lfloor>s\<rfloor> = \<lfloor>t\<rfloor>")
    case True
    with st show ?thesis
      by (auto simp: round_even_def Let_def)
  next
    case False
    with f have "\<lfloor>s\<rfloor> + 1 \<le> \<lfloor>t\<rfloor>" by simp
    then show ?thesis
      using round_even_bounds(2) [of s] round_even_bounds(1) [of t] by linarith
  qed
qed

lemma round_even_near:
  assumes "of_int n - 1 / 2 < t" and "t < of_int n + 1 / 2"
  shows "round_even t = n"
proof -
  have "\<lfloor>t\<rfloor> = n \<or> \<lfloor>t\<rfloor> = n - 1"
    using assms by linarith
  then show ?thesis
  proof
    assume "\<lfloor>t\<rfloor> = n"
    then show ?thesis using assms by (simp add: round_even_def Let_def)
  next
    assume "\<lfloor>t\<rfloor> = n - 1"
    then show ?thesis using assms by (simp add: round_even_def Let_def)
  qed
qed

lemma round_even_ge_int: "of_int n \<le> t \<Longrightarrow> n \<le> round_even t"
  by (metis round_even_mono round_even_of_int)

lemma round_even_le_int: "t \<le> of_int n \<Longrightarrow> round_even t \<le> n"
  by (metis round_even_mono round_even_of_int)

lemma ulp_pos: "0 < ulp x"
  by (simp add: ulp_def)

lemma binade:
  assumes "0 < x"
  shows "2 powr of_int \<lfloor>log 2 x\<rfloor> \<le> x" and "x < 2 powr (of_int \<lfloor>log 2 x\<rfloor> + 1)"
proof -
  have "2 powr of_int \<lfloor>log 2 x\<rfloor> \<le> 2 powr log 2 x"
    by (intro powr_mono) auto
  then show "2 powr of_int \<lfloor>log 2 x\<rfloor> \<le> x"
    using assms by simp
  have "2 powr log 2 x < 2 powr (of_int \<lfloor>log 2 x\<rfloor> + 1)"
    by (intro powr_less_mono) auto
  then show "x < 2 powr (of_int \<lfloor>log 2 x\<rfloor> + 1)"
    using assms by simp
qed

lemma below_next_binade:
  assumes "0 < x"
  shows "x < 2 powr (of_int (fexp x) + 1)"
proof -
  have "x < 2 powr (of_int \<lfloor>log 2 x\<rfloor> + 1)" using assms by (rule binade)
  also have "\<dots> \<le> 2 powr (of_int (fexp x) + 1)"
    using assms by (intro powr_mono) (auto simp: fexp_def)
  finally show ?thesis .
qed

lemma fexp_mono: "0 < x \<Longrightarrow> x \<le> y \<Longrightarrow> fexp x \<le> fexp y"
proof -
  assume "0 < x" "x \<le> y"
  then have "log 2 x \<le> log 2 y" by simp
  then have "\<lfloor>log 2 x\<rfloor> \<le> \<lfloor>log 2 y\<rfloor>" by (rule floor_mono)
  then show ?thesis using \<open>0 < x\<close> \<open>x \<le> y\<close> by (simp add: fexp_def)
qed

lemma scaled_less:
  assumes "0 < x"
  shows "x / ulp x < 2 powr 53"
proof -
  have "x / ulp x = x * 2 powr (52 - of_int (fexp x))"
    by (simp add: ulp_def powr_diff field_simps)
  also have "\<dots> < 2 powr (of_int (fexp x) + 1) * 2 powr (52 - of_int (fexp x))"
    using below_next_binade [OF assms] by simp
  also have "\<dots> = 2 powr 53"
    by (simp add: powr_add [symmetric])
  finally show ?thesis .
qed

lemma two_powr_53: "(2::real) powr 53 = of_int (2 ^ 53)"
proof -
  have "(2::real) powr 53 = 2 powr (of_nat 53)" by simp
  also have "\<dots> = 2 ^ 53" by (subst powr_realpow) simp_all
  finally show ?thesis by simp
qed

lemma two_powr_52: "(2::real) powr 52 = of_int (2 ^ 52)"
proof -
  have "(2::real) powr 52 = 2 powr (of_nat 52)" by simp
  also have "\<dots> = 2 ^ 52" by (subst powr_realpow) simp_all
  finally show ?thesis by simp
qed

lemma ulp_times_53: "ulp x * 2 powr 53 = 2 powr (of_int (fexp x) + 1)"
proof -
  have "ulp x * 2 powr 53 = 2 powr ((of_int (fexp x) - 52) + 53)"
    unfolding ulp_def by (rule powr_add [symmetric])
  also have "(of_int (fexp x) - 52) + 53 = (of_int (fexp x) + 1 :: real)" by simp
  finally show ?thesis .
qed

lemma ulp_times_52: "ulp x * 2 powr 52 = 2 powr of_int (fexp x)"
proof -
  have "ulp x * 2 powr 52 = 2 powr ((of_int (fexp x) - 52) + 52)"
    unfolding ulp_def by (rule powr_add [symmetric])
  also have "(of_int (fexp x) - 52) + 52 = (of_int (fexp x) :: real)" by simp
  finally show ?thesis .
qed

lemma fl_nonneg: "0 \<le> x \<Longrightarrow> 0 \<le> fl x"
proof -
  assume x: "0 \<le> x"
  have "0 \<le> x / ulp x" using x ulp_pos [of x] by simp
  then have "0 \<le> round_even (x / ulp x)"
    by (intro round_even_ge_int) simp
  then show ?thesis using ulp_pos [of x] by (simp add: fl_def)
qed

lemma fl_le_next_binade:
  assumes "0 < x"
  shows "fl x \<le> 2 powr (of_int (fexp x) + 1)"
proof -
  have "x / ulp x \<le> of_int (2 ^ 53)"
    using scaled_less [OF assms] by (simp add: two_powr_53)
  then have "round_even (x / ulp x) \<le> 2 ^ 53"
    by (rule round_even_le_int)
  then have "(of_int (round_even (x / ulp x)) :: real) \<le> of_int (2 ^ 53)"
    by (simp only: of_int_le_iff)
  then have "fl x \<le> ulp x * 2 powr 53"
    using assms ulp_pos [of x] by (simp add: fl_def two_powr_53)
  also have "\<dots> = 2 powr (of_int (fexp x) + 1)"
    by (rule ulp_times_53)
  finally show ?thesis .
qed

lemma normal_fexp: "2 powr (- 1022) \<le> x \<Longrightarrow> fexp x = \<lfloor>log 2 x\<rfloor>"
proof -
  assume n: "2 powr (- 1022) \<le> x"
  have "(0::real) < 2 powr (- 1022)" by simp
  with n have x: "0 < x" by linarith
  from n x have "log 2 (2 powr (- 1022)) \<le> log 2 x" by (subst log_le_cancel_iff) simp_all
  then have "- 1022 \<le> log 2 x" by simp
  then have "- 1022 \<le> \<lfloor>log 2 x\<rfloor>" by linarith
  then show ?thesis using x by (simp add: fexp_def)
qed

lemma fl_ge_binade:
  assumes "2 powr (- 1022) \<le> x"
  shows "2 powr of_int (fexp x) \<le> fl x"
proof -
  have "(0::real) < 2 powr (- 1022)" by simp
  with assms have x: "0 < x" by linarith
  have e: "2 powr of_int (fexp x) \<le> x"
    using binade(1) [OF x] normal_fexp [OF assms] by simp
  have "x / ulp x = x * 2 powr (52 - of_int (fexp x))"
    by (simp add: ulp_def powr_diff field_simps)
  moreover have "2 powr of_int (fexp x) * 2 powr (52 - of_int (fexp x)) \<le> x * 2 powr (52 - of_int (fexp x))"
    using e by simp
  moreover have "2 powr of_int (fexp x) * 2 powr (52 - of_int (fexp x)) = (2::real) powr 52"
    by (simp add: powr_add [symmetric])
  ultimately have "of_int (2 ^ 52) \<le> x / ulp x"
    by (simp add: two_powr_52)
  then have "2 ^ 52 \<le> round_even (x / ulp x)"
    by (rule round_even_ge_int)
  then have "(of_int (2 ^ 52) :: real) \<le> of_int (round_even (x / ulp x))"
    by (simp only: of_int_le_iff)
  then have "ulp x * 2 powr 52 \<le> fl x"
    using x ulp_pos [of x] by (simp add: fl_def two_powr_52)
  then show ?thesis
    by (simp only: ulp_times_52)
qed

lemma fl_mono_pos:
  assumes "0 < x" and "x \<le> y"
  shows "fl x \<le> fl y"
proof (cases "fexp x = fexp y")
  case True
  then have u: "ulp x = ulp y" by (simp add: ulp_def)
  have "x / ulp y \<le> y / ulp y"
    using assms ulp_pos [of y] by (simp add: divide_right_mono)
  then have "round_even (x / ulp y) \<le> round_even (y / ulp y)"
    by (rule round_even_mono)
  then have "(of_int (round_even (x / ulp y)) :: real) \<le> of_int (round_even (y / ulp y))"
    by (simp only: of_int_le_iff)
  then show ?thesis
    using assms u ulp_pos [of y] by (simp add: fl_def)
next
  case False
  with fexp_mono [OF assms] have lt: "fexp x + 1 \<le> fexp y" by simp
  then have "- 1022 < fexp y" by (simp add: fexp_def)
  then have fy: "fexp y = \<lfloor>log 2 y\<rfloor>" using assms by (simp add: fexp_def max_def split: if_splits)
  have y0: "0 < y" using assms by linarith
  have "(2::real) powr (- 1022) \<le> 2 powr of_int (fexp y)"
    using \<open>- 1022 < fexp y\<close> by (intro powr_mono) auto
  also have "\<dots> \<le> y" using binade(1) [OF y0] fy by simp
  finally have ny: "2 powr (- 1022) \<le> y" .
  have "fl x \<le> 2 powr (of_int (fexp x) + 1)" using assms(1) by (rule fl_le_next_binade)
  also have "\<dots> \<le> 2 powr of_int (fexp y)"
    using lt by (intro powr_mono) (auto simp: of_int_le_iff [symmetric] simp del: of_int_le_iff)
  also have "\<dots> \<le> fl y" using ny by (rule fl_ge_binade)
  finally show ?thesis .
qed

lemma fl_mono: "0 \<le> x \<Longrightarrow> x \<le> y \<Longrightarrow> fl x \<le> fl y"
proof (cases "x = 0")
  case True
  assume "0 \<le> x" "x \<le> y"
  with True have "0 \<le> fl y" by (intro fl_nonneg) simp
  with True show ?thesis by (simp add: fl_def)
next
  case False
  assume "0 \<le> x" "x \<le> y"
  with False show ?thesis by (intro fl_mono_pos) simp_all
qed

lemma fexp_binade:
  assumes "2 powr of_int k \<le> x" and "x < 2 powr (of_int k + 1)" and "- 1022 \<le> k"
  shows "fexp x = k"
proof -
  have "(0::real) < 2 powr of_int k" by simp
  then have x: "0 < x" using assms(1) by (rule less_le_trans)
  have "of_int k \<le> log 2 x"
    using assms(1) x by (simp add: le_log_iff)
  moreover have "log 2 x < of_int k + 1"
    using assms(2) x by (simp add: log_less_iff)
  ultimately have "\<lfloor>log 2 x\<rfloor> = k" by linarith
  then show ?thesis using x assms(3) by (simp add: fexp_def)
qed

lemma fl_two_powr:
  assumes "- 1022 \<le> k"
  shows "fl (2 powr of_int k) = 2 powr of_int k"
proof -
  let ?x = "(2::real) powr of_int k"
  have "?x < 2 powr (of_int k + 1)" by (intro powr_less_mono) auto
  then have e: "fexp ?x = k" using assms by (intro fexp_binade) auto
  have "?x / ulp ?x = ulp ?x * 2 powr 52 / ulp ?x"
    by (simp only: ulp_times_52 e)
  also have "\<dots> = of_int (2 ^ 52)"
    using ulp_pos [of ?x] by (simp add: two_powr_52)
  finally have "round_even (?x / ulp ?x) = 2 ^ 52" by (simp only: round_even_of_int)
  then have "fl ?x = ulp ?x * of_int (2 ^ 52)" by (simp add: fl_def)
  also have "\<dots> = ulp ?x * 2 powr 52" by (simp only: two_powr_52)
  also have "\<dots> = ?x" by (simp only: ulp_times_52 e)
  finally show ?thesis .
qed

lemma fl_one [simp]: "fl 1 = 1"
  using fl_two_powr [of 0] by simp

lemma fl_half_power: "n \<le> 1022 \<Longrightarrow> fl (1 / 2 ^ n) = 1 / 2 ^ n"
proof -
  assume n: "n \<le> 1022"
  have "(2::real) powr of_int (- int n) = 1 / 2 ^ n"
    by (simp add: powr_minus powr_realpow field_simps)
  then show ?thesis using fl_two_powr [of "- int n"] n by simp
qed

lemma fl_four: "fl 4 = 4"
  using fl_two_powr [of 2] by simp

lemma fl_error:
  assumes "2 powr (- 1022) \<le> x"
  shows "fl x \<le> x + x / 2 ^ 53"
proof -
  have "(0::real) < 2 powr (- 1022)" by simp
  with assms have x: "0 < x" by linarith
  have e: "2 powr of_int (fexp x) \<le> x"
    using binade(1) [OF x] normal_fexp [OF assms] by simp
  have "ulp x * 2 powr 52 \<le> x" using e by (simp only: ulp_times_52)
  then have u: "ulp x \<le> x / 2 ^ 52" by (simp add: field_simps)
  have "of_int (round_even (x / ulp x)) \<le> x / ulp x + 1 / 2" by (rule round_even_le)
  then have "ulp x * of_int (round_even (x / ulp x)) \<le> ulp x * (x / ulp x + 1 / 2)"
    using ulp_pos [of x] by (intro mult_left_mono) auto
  also have "\<dots> = x + ulp x / 2" using ulp_pos [of x] by (simp add: field_simps)
  also have "\<dots> \<le> x + x / 2 ^ 53" using u by simp
  finally show ?thesis using x by (simp add: fl_def)
qed

lemma fl_pos: 
  assumes "2 powr (- 1022) \<le> x"
  shows "0 < fl x"
proof -
  have "(0::real) < 2 powr of_int (fexp x)" by simp
  then show ?thesis using fl_ge_binade [OF assms] by (rule less_le_trans)
qed

lemma fl_near_one:
  assumes "1 - 1 / 2 ^ 54 < y" and "y \<le> 1"
  shows "fl y = 1"
proof (cases "y = 1")
  case True
  then show ?thesis by simp
next
  case False
  with assms have y1: "y < 1" by simp
  have yh: "1 / 2 \<le> y" using assms(1) by simp
  have e: "fexp y = - 1"
    using yh y1 by (intro fexp_binade) (simp_all add: powr_minus)
  have u: "ulp y = 1 / 2 ^ 53"
  proof -
    have "ulp y = 2 powr (of_int (- 53))" by (simp add: ulp_def e)
    also have "\<dots> = 1 / 2 ^ 53" by (simp add: powr_minus powr_realpow field_simps)
    finally show ?thesis .
  qed
  have t: "y / ulp y = y * 2 ^ 53" by (simp add: u)
  have "round_even (y / ulp y) = 2 ^ 53"
  proof (rule round_even_near)
    show "of_int (2 ^ 53) - 1 / 2 < y / ulp y"
      using assms(1) unfolding t by (simp add: field_simps)
    show "y / ulp y < of_int (2 ^ 53) + 1 / 2"
      using y1 unfolding t by simp
  qed
  then show ?thesis using False assms(1) by (simp add: fl_def u)
qed

lemma airmass_ag_f64_eq: "airmass_ag_f64 lm z = ufunc (airmass_f64_at lm) z"
  by (simp add: airmass_ag_f64_def ufunc_def airmass_f64_at_def)

lemma tiny_le_one: "(2::real) powr (- 1022) \<le> 1"
proof -
  have "(2::real) powr (- 1022) \<le> 2 powr 0" by (intro powr_mono) auto
  then show ?thesis by simp
qed

lemma normal_ge: "1 / 2 ^ 10 \<le> x \<Longrightarrow> 2 powr (- 1022) \<le> (x::real)"
proof -
  assume x: "1 / 2 ^ 10 \<le> x"
  have "(2::real) powr (- 1022) \<le> 2 powr (- 10)" by (intro powr_mono) auto
  also have "\<dots> = 1 / 2 ^ 10" by (simp add: powr_minus powr_realpow field_simps)
  finally show ?thesis using x by linarith
qed

lemma fl_up: "1 / 2 ^ 10 \<le> x \<Longrightarrow> fl x \<le> x * (1 + 1 / 2 ^ 53)"
  using fl_error [OF normal_ge, of x] by (simp add: algebra_simps)

lemma fl_two: "fl 2 = 2"
  using fl_two_powr [of 1] by simp

lemma fl_half: "fl (1 / 2) = 1 / 2"
  using fl_half_power [of 1] by simp

lemma rad_const_bounds:
  "1 / 2 ^ 7 \<le> fl (fl pi / 180)" "fl (fl pi / 180) \<le> pi / 180 * (1 + 1 / 2 ^ 53) ^ 2"
proof -
  have p2: "2 \<le> fl pi"
    using fl_mono [of 2 pi] pi_ge_two by (simp add: fl_two)
  have "fl (1 / 2 ^ 7) \<le> fl (fl pi / 180)"
    using p2 by (intro fl_mono) simp_all
  then show "1 / 2 ^ 7 \<le> fl (fl pi / 180)"
    using fl_half_power [of 7] by simp
  have "fl pi \<le> pi * (1 + 1 / 2 ^ 53)"
    using pi_ge_two by (intro fl_up) simp
  then have a: "fl pi / 180 \<le> pi / 180 * (1 + 1 / 2 ^ 53)"
    by simp
  have "fl (fl pi / 180) \<le> fl pi / 180 * (1 + 1 / 2 ^ 53)"
    using p2 by (intro fl_up) simp
  also have "\<dots> \<le> pi / 180 * (1 + 1 / 2 ^ 53) * (1 + 1 / 2 ^ 53)"
    using a by (intro mult_right_mono) simp_all
  finally show "fl (fl pi / 180) \<le> pi / 180 * (1 + 1 / 2 ^ 53) ^ 2"
    by (simp add: power2_eq_square)
qed

lemma deg2rad_f64_nonneg: "0 \<le> v \<Longrightarrow> 0 \<le> deg2rad_f64 v"
  using rad_const_bounds(1) by (auto simp: deg2rad_f64_def fmul_def intro!: fl_nonneg)

lemma deg2rad_f64_mono: "0 \<le> u \<Longrightarrow> u \<le> v \<Longrightarrow> deg2rad_f64 u \<le> deg2rad_f64 v"
proof -
  assume u: "0 \<le> u" "u \<le> v"
  have c: "0 \<le> fl (fl pi / 180)"
    using rad_const_bounds(1) by (rule order_trans [rotated]) simp
  show ?thesis
    unfolding deg2rad_f64_def fmul_def using u c by (intro fl_mono mult_right_mono) simp_all
qed

lemma deg2rad_f64_88: "deg2rad_f64 88 \<le> pi / 2"
proof -
  let ?c = "fl (fl pi / 180)" and ?e = "(1 + 1 / 2 ^ 53 :: real)"
  have "1 / 2 ^ 10 \<le> 88 * ?c"
    using rad_const_bounds(1) by simp
  then have "fl (88 * ?c) \<le> 88 * ?c * ?e" by (rule fl_up)
  also have "\<dots> \<le> 88 * (pi / 180 * ?e ^ 2) * ?e"
    using rad_const_bounds(2) by (intro mult_right_mono mult_left_mono) simp_all
  also have "\<dots> = pi * (88 / 180 * ?e ^ 3)"
    by (simp add: power2_eq_square power3_eq_cube)
  also have "\<dots> \<le> pi * (1 / 2)"
    by (intro mult_left_mono) (simp_all add: power3_eq_cube)
  finally show ?thesis by (simp add: deg2rad_f64_def fmul_def)
qed

lemma const_972_bounds: "1 / 2 \<le> fl 0.972" "fl 0.972 \<le> 1" "fl (fl 0.972) \<le> 0.99"
proof -
  have "fl (1 / 2) \<le> fl 0.972" by (intro fl_mono) simp_all
  then show h: "1 / 2 \<le> fl 0.972" by (simp add: fl_half)
  have "fl 0.972 \<le> fl 1" by (intro fl_mono) simp_all
  then show "fl 0.972 \<le> 1" by simp
  have a: "fl 0.972 \<le> 0.972 * (1 + 1 / 2 ^ 53)"
    by (intro fl_up) simp
  have "fl (fl 0.972) \<le> fl 0.972 * (1 + 1 / 2 ^ 53)"
    using h by (intro fl_up) simp
  also have "\<dots> \<le> 0.972 * (1 + 1 / 2 ^ 53) * (1 + 1 / 2 ^ 53)"
    using a by (intro mult_right_mono) simp_all
  also have "\<dots> \<le> 0.99" by simp
  finally show "fl (fl 0.972) \<le> 0.99" .
qed

lemma base_f64:
  assumes "0 \<le> s1" "s1 \<le> s2" "s2 \<le> 1"
  shows "fsub 1 (fmul (fl 0.972) (fmul s2 s2)) \<le> fsub 1 (fmul (fl 0.972) (fmul s1 s1))"
    and "0 < fsub 1 (fmul (fl 0.972) (fmul s2 s2))"
proof -
  let ?k = "fl 0.972"
  let ?q1 = "fl (s1 * s1)" and ?q2 = "fl (s2 * s2)"
  have k0: "0 \<le> ?k" using const_972_bounds(1) by simp
  have "0 \<le> s1 * s1" "s1 * s1 \<le> s2 * s2"
    using assms by (simp_all add: mult_mono)
  then have q: "?q1 \<le> ?q2" by (rule fl_mono)
  have q0: "0 \<le> ?q1" using assms by (intro fl_nonneg) simp
  have "s2 * s2 \<le> 1 * 1" using assms by (intro mult_mono) simp_all
  moreover have "0 \<le> s2 * s2" by simp
  ultimately have "?q2 \<le> fl 1" by (intro fl_mono) simp_all
  then have q1: "?q2 \<le> 1" by simp
  have "0 \<le> ?k * ?q1" "?k * ?q1 \<le> ?k * ?q2"
    using k0 q q0 by (simp_all add: mult_left_mono)
  then have t: "fl (?k * ?q1) \<le> fl (?k * ?q2)"
    by (rule fl_mono)
  have t0: "0 \<le> fl (?k * ?q1)" using k0 q0 by (intro fl_nonneg) simp
  have "0 \<le> ?k * ?q2" "?k * ?q2 \<le> ?k"
    using k0 q q0 q1 mult_left_mono [of ?q2 1 ?k] by simp_all
  then have "fl (?k * ?q2) \<le> fl ?k"
    by (rule fl_mono)
  then have t1: "fl (?k * ?q2) \<le> 0.99" using const_972_bounds(3) by linarith
  show "fsub 1 (fmul ?k (fmul s2 s2)) \<le> fsub 1 (fmul ?k (fmul s1 s1))"
  proof -
    have "0 \<le> 1 - fl (?k * ?q2)" "1 - fl (?k * ?q2) \<le> 1 - fl (?k * ?q1)"
      using t t1 by simp_all
    then show ?thesis unfolding fsub_def fmul_def by (rule fl_mono)
  qed
  have "1 / 2 ^ 10 \<le> 1 - fl (?k * ?q2)" using t1 by simp
  then have "2 powr (- 1022) \<le> 1 - fl (?k * ?q2)" by (rule normal_ge)
  then show "0 < fsub 1 (fmul ?k (fmul s2 s2))"
    unfolding fsub_def fmul_def by (rule fl_pos)
qed

lemma airmass_f64_mono:
  assumes ok: "libm_ok lm" and "0 \<le> u" "u \<le> v" "v \<le> 88"
  shows "airmass_f64_at lm u \<le> airmass_f64_at lm v"
proof -
  let ?du = "deg2rad_f64 u" and ?dv = "deg2rad_f64 v"
  have d: "0 \<le> ?du" "?du \<le> ?dv"
    using assms by (simp_all add: deg2rad_f64_nonneg deg2rad_f64_mono)
  have "?dv \<le> deg2rad_f64 88" using assms by (intro deg2rad_f64_mono) simp_all
  then have dv: "?dv \<le> pi / 2" using deg2rad_f64_88 by linarith
  from ok have s: "sin_f lm ?du \<le> sin_f lm ?dv"
    using d dv unfolding libm_ok_def by blast
  from ok have s0: "0 \<le> sin_f lm ?du"
    using d dv unfolding libm_ok_def by (meson order_trans)
  from ok have s1: "sin_f lm ?dv \<le> 1"
    using d dv unfolding libm_ok_def by (meson order_trans)
  let ?bu = "fsub 1 (fmul (fl 0.972) (fmul (sin_f lm ?du) (sin_f lm ?du)))"
  let ?bv = "fsub 1 (fmul (fl 0.972) (fmul (sin_f lm ?dv) (sin_f lm ?dv)))"
  have "?bv \<le> ?bu" "0 < ?bv"
    using base_f64 [OF s0 s s1] by simp_all
  with ok have "pow_f lm ?bu (- 0.5) \<le> pow_f lm ?bv (- 0.5)"
    unfolding libm_ok_def by blast
  then show ?thesis by (simp add: airmass_f64_at_def)
qed

lemma libm_rounded_ok: "libm_ok libm_rounded"
proof -
  have a: "fl (sin x) \<le> fl (sin y)" if "0 \<le> x" "x \<le> y" "y \<le> pi / 2" for x y
  proof -
    have "sin x \<le> sin y" using that by (intro sin_mono_le_eq [THEN iffD2]) simp_all
    moreover have "0 \<le> sin x" using that by (intro sin_ge_zero) simp_all
    ultimately show ?thesis by (intro fl_mono)
  qed
  have b: "0 \<le> fl (sin x) \<and> fl (sin x) \<le> 1" if "0 \<le> x" "x \<le> pi / 2" for x
  proof -
    have s: "0 \<le> sin x" using that by (intro sin_ge_zero) simp_all
    then have "fl (sin x) \<le> fl 1" by (intro fl_mono) simp_all
    with s show ?thesis by (simp add: fl_nonneg)
  qed
  have c: "fl (b powr (- 0.5)) \<le> fl (a powr (- 0.5))" if "0 < a" "a \<le> b" for a b :: real
  proof -
    have "b powr (- 0.5) \<le> a powr (- 0.5)" using that by (intro powr_mono2') simp_all
    then show ?thesis by (intro fl_mono) simp_all
  qed
  show ?thesis
    unfolding libm_ok_def libm_rounded_def using a b c by simp
qed

lemma rad_const_small: "fl (fl pi / 180) \<le> 1 / 2 ^ 5"
proof -
  have "fl pi \<le> fl 4" using pi_less_4 pi_ge_zero by (intro fl_mono) simp_all
  then have "fl pi / 180 \<le> 1 / 2 ^ 5" by (simp add: fl_four)
  moreover have "0 \<le> fl pi / 180" using fl_nonneg [OF pi_ge_zero] by simp
  ultimately have "fl (fl pi / 180) \<le> fl (1 / 2 ^ 5)" by (rule fl_mono [rotated])
  then show ?thesis using fl_half_power [of 5] by simp
qed

lemma airmass_f64_tiny:
  assumes sn: "\<And>x. 0 \<le> x \<Longrightarrow> x \<le> 1 / 2 ^ 35 \<Longrightarrow> 0 \<le> sin_f lm x \<and> sin_f lm x \<le> 1 / 2 ^ 34"
    and pw: "pow_f lm 1 (- 0.5) = 1"
    and v: "0 \<le> v" "v \<le> 1 / 2 ^ 30"
  shows "airmass_f64_at lm v = 1"
proof -
  let ?c = "fl (fl pi / 180)" and ?k = "fl 0.972"
  let ?d = "deg2rad_f64 v"
  let ?s = "sin_f lm ?d"
  have c0: "0 \<le> ?c" using rad_const_bounds(1) by (rule order_trans [rotated]) simp
  have d0: "0 \<le> ?d" using v(1) by (rule deg2rad_f64_nonneg)
  have "v * ?c \<le> (1 / 2 ^ 30) * (1 / 2 ^ 5)"
    using v c0 rad_const_small by (intro mult_mono) simp_all
  then have "v * ?c \<le> 1 / 2 ^ 35" by simp
  moreover have "0 \<le> v * ?c" using v c0 by simp
  ultimately have "fl (v * ?c) \<le> fl (1 / 2 ^ 35)" by (rule fl_mono [rotated])
  then have d1: "?d \<le> 1 / 2 ^ 35"
    using fl_half_power [of 35] by (simp add: deg2rad_f64_def fmul_def)
  from sn [OF d0 d1] have s: "0 \<le> ?s" "?s \<le> 1 / 2 ^ 34" by simp_all
  have "?s * ?s \<le> (1 / 2 ^ 34) * (1 / 2 ^ 34)" using s by (intro mult_mono) simp_all
  then have "?s * ?s \<le> 1 / 2 ^ 68" by simp
  moreover have "0 \<le> ?s * ?s" by simp
  ultimately have "fl (?s * ?s) \<le> fl (1 / 2 ^ 68)" by (rule fl_mono [rotated])
  then have q1: "fl (?s * ?s) \<le> 1 / 2 ^ 68" using fl_half_power [of 68] by simp
  have q0: "0 \<le> fl (?s * ?s)" by (intro fl_nonneg) simp
  have k: "0 \<le> ?k" "?k \<le> 1" using const_972_bounds by simp_all
  have "?k * fl (?s * ?s) \<le> 1 * (1 / 2 ^ 68)" using k q0 q1 by (intro mult_mono) simp_all
  then have "?k * fl (?s * ?s) \<le> 1 / 2 ^ 68" by simp
  moreover have kq0: "0 \<le> ?k * fl (?s * ?s)" using k q0 by simp
  ultimately have "fl (?k * fl (?s * ?s)) \<le> fl (1 / 2 ^ 68)" by (rule fl_mono [rotated])
  then have t1: "fl (?k * fl (?s * ?s)) \<le> 1 / 2 ^ 68" using fl_half_power [of 68] by simp
  have t0: "0 \<le> fl (?k * fl (?s * ?s))" using kq0 by (rule fl_nonneg)
  have "fl (1 - fl (?k * fl (?s * ?s))) = 1"
    using t0 t1 by (intro fl_near_one) simp_all
  then show ?thesis
    using pw by (simp add: airmass_f64_at_def fsub_def fmul_def)
qed

lemma libm_rounded_tiny:
  assumes "0 \<le> x" "x \<le> 1 / 2 ^ 35"
  shows "0 \<le> sin_f libm_rounded x \<and> sin_f libm_rounded x \<le> 1 / 2 ^ 34"
proof -
  have "(1 / 2 ^ 35 :: real) \<le> pi" using pi_ge_two by simp
  with assms have s0: "0 \<le> sin x" by (intro sin_ge_zero) simp_all
  have "sin x \<le> x" using assms(1) by (rule sin_x_le_x)
  with assms have "sin x \<le> 1 / 2 ^ 35" by simp
  with s0 have "fl (sin x) \<le> fl (1 / 2 ^ 35)" by (rule fl_mono)
  then have "fl (sin x) \<le> 1 / 2 ^ 34" using fl_half_power [of 35] by simp
  with s0 show ?thesis by (simp add: libm_rounded_def fl_nonneg)
qed

text \<open>
  Claim C9, as the specification states it: \<open>airmass_ag\<close> is strictly increasing on
  \<open>[0, 88]\<close> degrees. It fails in float64 arithmetic: the zenith angles \<open>0\<close> and
  \<open>2 powr (- 30)\<close> degrees, both float64 values, have the same airmass 1, because
  \<open>0.972 sin\<^sup>2\<close> is then far below half an ulp of 1 and \<open>1 - 0.972 sin\<^sup>2\<close> rounds
  to 1.
\<close>

theorem airmass_ag_f64_not_strict_counterexample:
  "airmass_ag_f64 libm_rounded (scalar 0) = scalar 1
   \<and> airmass_ag_f64 libm_rounded (scalar (1 / 2 ^ 30)) = scalar 1"
proof -
  have pw: "pow_f libm_rounded 1 (- 0.5) = 1" by (simp add: libm_rounded_def)
  have "airmass_f64_at libm_rounded 0 = 1"
    using libm_rounded_tiny pw by (intro airmass_f64_tiny) simp_all
  moreover have "airmass_f64_at libm_rounded (1 / 2 ^ 30) = 1"
    using libm_rounded_tiny pw by (intro airmass_f64_tiny) simp_all
  ultimately show ?thesis by (simp add: airmass_ag_f64_eq)
qed

text \<open>
  Claim C9, amended: in float64 arithmetic \<open>airmass_ag\<close> does not decrease on
  \<open>[0, 88]\<close> degrees: of two zenith angles \<open>0 \<le> z1 \<le> z2 \<le> 88\<close>, elements of the arrays
  \<open>z1\<close> and \<open>z2\<close>, the larger has an airmass that is not smaller, for every C library
  whose \<open>sin\<close> and \<open>pow\<close> are monotone as \<open>libm_ok\<close> says.
\<close>

theorem airmass_ag_f64_mono: "libm_ok lm \<Longrightarrow> i < length (data z1) \<Longrightarrow> j < length (data z2)
   \<Longrightarrow> 0 \<le> data z1 ! i \<Longrightarrow> data z1 ! i \<le> data z2 ! j \<Longrightarrow> data z2 ! j \<le> 88
   \<Longrightarrow> data (airmass_ag_f64 lm z1) ! i \<le> data (airmass_ag_f64 lm z2) ! j"
  by (simp add: airmass_ag_f64_eq airmass_f64_mono)

theorem airmass_ag_f64_mono_witness: "data (airmass_ag_f64 libm_rounded (scalar 0)) ! 0
     \<le> data (airmass_ag_f64 libm_rounded (array1 [10, 30])) ! 1"
  using airmass_ag_f64_mono [of libm_rounded 0 "scalar 0" 1 "array1 [10, 30]"] libm_rounded_ok
  by (simp add: array1_def scalar_def)

section \<open>Shapes, indices and rows\<close>

lemma bc_dim_same [simp]: "bc_dim a a = Some a"
  by (simp add: bc_dim_def)
lemma bc_dim_one_right [simp]: "bc_dim a (Suc 0) = Some a"
  by (auto simp add: bc_dim_def)
lemma bc_dim_one_left [simp]: "bc_dim (Suc 0) a = Some a"
  by (auto simp add: bc_dim_def)

lemma bc_rev_same [simp]: "bc_rev r r = Some r"
  by (induction r) simp_all

lemma bc_rev_Nil_right [simp]: "bc_rev r [] = Some r"
  by (cases r) simp_all

lemma broadcast_shapes_same [simp]: "broadcast_shapes s s = Some s"
  by (simp add: broadcast_shapes_def)

lemma broadcast_shapes_col_row [simp]: "broadcast_shapes (s @ [Suc 0]) [m] = Some (s @ [m])"
  by (simp add: broadcast_shapes_def)

lemma broadcast_shapes_row_col [simp]: "broadcast_shapes [m] (s @ [Suc 0]) = Some (s @ [m])"
  by (simp add: broadcast_shapes_def)

lemma broadcast_shapes_row_stack [simp]: "broadcast_shapes [m] (s @ [m]) = Some (s @ [m])"
  by (simp add: broadcast_shapes_def)

lemma broadcast_shapes_stack_col [simp]: "broadcast_shapes (s @ [m]) (s @ [Suc 0]) = Some (s @ [m])"
  by (simp add: broadcast_shapes_def)

lemma broadcast_shapes_Nil_left [simp]: "broadcast_shapes [] s = Some s"
  by (simp add: broadcast_shapes_def)

lemma broadcast_shapes_Nil_right [simp]: "broadcast_shapes s [] = Some s"
  by (simp add: broadcast_shapes_def)

lemma src_index_rev_same: "k < prod_list r \<Longrightarrow> src_index_rev r r k = k"
proof (induction r arbitrary: k)
  case Nil
  then show ?case by simp
next
  case (Cons a r)
  from Cons.prems have a0: "0 < a" by (cases "a = 0") auto
  from Cons.prems a0 have "k div a < prod_list r"
    by (simp add: less_mult_imp_div_less mult.commute)
  then have "src_index_rev r r (k div a) = k div a" by (rule Cons.IH)
  then show ?case by (auto simp add: )
qed

lemma src_index_same: "k < prod_list s \<Longrightarrow> src_index s s k = k"
  by (simp add: src_index_def src_index_rev_same)

lemma src_index_col: "k < prod_list s * m \<Longrightarrow> src_index (s @ [Suc 0]) (s @ [m]) k = k div m"
proof -
  assume k: "k < prod_list s * m"
  then have m0: "0 < m" by (cases "m = 0") auto
  from k m0 have "k div m < prod_list (rev s)"
    by (simp add: less_mult_imp_div_less)
  then show ?thesis by (simp add: src_index_def src_index_rev_same)
qed

lemma src_index_row: "src_index [m] (s @ [m]) k = k mod m"
  by (simp add: src_index_def)

lemma src_index_Nil: "src_index [] s k = 0"
  by (simp add: src_index_def)

lemma nth_concat_uniform:
  "\<forall>r\<in>set rows. length r = m \<Longrightarrow> k < length rows * m
    \<Longrightarrow> concat rows ! k = rows ! (k div m) ! (k mod m)"
proof (induction rows arbitrary: k)
  case Nil
  then show ?case by simp
next
  case (Cons r rows)
  show ?case
  proof (cases "k < m")
    case True
    with Cons.prems show ?thesis by (simp add: nth_append)
  next
    case False
    then have km: "m \<le> k" by simp
    from Cons.prems have m0: "0 < m" by (cases "m = 0") auto
    from Cons.prems km have "k - m < length rows * m" by simp
    with Cons.prems have "concat rows ! (k - m) = rows ! ((k - m) div m) ! ((k - m) mod m)"
      by (intro Cons.IH) auto
    moreover have "(k - m) mod m = k mod m" using km by (simp add: le_mod_geq)
    moreover have "k div m = Suc ((k - m) div m)" using km m0 by (simp add: le_div_geq)
    ultimately show ?thesis using Cons.prems False by (simp add: nth_append)
  qed
qed

lemma length_concat_uniform:
  "\<forall>r\<in>set rows. length r = m \<Longrightarrow> length (concat rows) = length rows * m"
  by (induction rows) simp_all

lemma stack_eqI:
  assumes "length xs * m = N" and "\<forall>x\<in>set xs. length (g x) = m"
    and "\<And>k. k < N \<Longrightarrow> F k = g (xs ! (k div m)) ! (k mod m)"
  shows "map F [0..<N] = concat (map g xs)"
proof (rule nth_equalityI)
  have "length (concat (map g xs)) = length (map g xs) * m"
    using assms(2) by (intro length_concat_uniform) auto
  then show "length (map F [0..<N]) = length (concat (map g xs))"
    using assms(1) by simp
next
  fix k assume "k < length (map F [0..<N])"
  then have k: "k < N" by simp
  then have m0: "0 < m" using assms(1) by (cases "m = 0") auto
  have kd: "k div m < length xs" using k assms(1) m0 by (simp add: less_mult_imp_div_less)
  have "concat (map g xs) ! k = map g xs ! (k div m) ! (k mod m)"
    using assms(1,2) k by (intro nth_concat_uniform) auto
  then show "map F [0..<N] ! k = concat (map g xs) ! k"
    using k kd assms(3) by simp
qed

lemma take_drop_concat_uniform:
  "\<forall>r\<in>set rows. length r = m \<Longrightarrow> i < length rows
    \<Longrightarrow> take m (drop (i * m) (concat rows)) = rows ! i"
proof (induction rows arbitrary: i)
  case Nil
  then show ?case by simp
next
  case (Cons r rows)
  then show ?case by (cases i) simp_all
qed

lemma broadcast2_shape:
  "broadcast_shapes (shape a) (shape b) = Some s
    \<Longrightarrow> \<exists>c. broadcast2 f a b = Inr c \<and> shape c = s"
  by (simp add: broadcast2_def)

lemma iadd_shape:
  "shape b = shape a \<Longrightarrow> \<exists>c. iadd a b = Inr c \<and> shape c = shape a"
  by (simp add: iadd_def broadcast2_def)

lemma trailing_one: "q \<noteq> [] \<Longrightarrow> last q = 1 \<Longrightarrow> q = butlast q @ [Suc 0]"
  by (metis One_nat_def append_butlast_last_id)

lemma bs_row_z: "q = [] \<or> last q = 1 \<Longrightarrow> broadcast_shapes [m] q = Some (butlast q @ [m])"
proof (cases "q = []")
  case True
  then show ?thesis by simp
next
  case False
  assume "q = [] \<or> last q = 1"
  with False have "q = butlast q @ [Suc 0]" by (metis trailing_one)
  then show ?thesis by (metis broadcast_shapes_row_col)
qed

lemma bs_z_row: "q = [] \<or> last q = 1 \<Longrightarrow> broadcast_shapes q [m] = Some (butlast q @ [m])"
proof (cases "q = []")
  case True
  then show ?thesis by simp
next
  case False
  assume "q = [] \<or> last q = 1"
  with False have "q = butlast q @ [Suc 0]" by (metis trailing_one)
  then show ?thesis by (metis broadcast_shapes_col_row)
qed

lemma bs_stack_z: "q = [] \<or> last q = 1 \<Longrightarrow> broadcast_shapes (butlast q @ [m]) q = Some (butlast q @ [m])"
proof (cases "q = []")
  case True
  then show ?thesis by simp
next
  case False
  assume "q = [] \<or> last q = 1"
  with False have "q = butlast q @ [Suc 0]" by (metis trailing_one)
  then show ?thesis by (metis broadcast_shapes_stack_col)
qed

lemma apply_absorption_shape:
  assumes "shape Xag = [] \<or> last (shape Xag) = 1"
    and "shape cont = [length (trans_ma atm)]" and "shape line = [length (trans_ma atm)]"
  shows "\<exists>c l. apply_absorption atm Xag cont line = Inr (c, l)
           \<and> shape c = butlast (shape Xag) @ [length (trans_ma atm)]
           \<and> shape l = butlast (shape Xag) @ [length (trans_ma atm)]"
proof -
  let ?out = "butlast (shape Xag) @ [length (trans_ma atm)]"
  have "broadcast_shapes (shape (array1 (trans_ma atm))) (shape Xag) = Some ?out"
    using assms(1) by (simp add: array1_def bs_row_z)
  then obtain t where t: "broadcast2 (\<lambda>t x. t powr x) (array1 (trans_ma atm)) Xag = Inr t"
    "shape t = ?out"
    using broadcast2_shape by blast
  have "broadcast_shapes (shape cont) (shape t) = Some ?out"
    using assms(2) t(2) by simp
  then obtain c where c: "broadcast2 (*) cont t = Inr c" "shape c = ?out"
    using broadcast2_shape by blast
  have "broadcast_shapes (shape line) (shape t) = Some ?out"
    using assms(3) t(2) by simp
  then obtain l where l: "broadcast2 (*) line t = Inr l" "shape l = ?out"
    using broadcast2_shape by blast
  show ?thesis
    using t c l by (simp add: apply_absorption_def bind_err_def)
qed

lemma apply_scattering_shape:
  assumes "shape z = [] \<or> last (shape z) = 1"
    and "shape Xag = shape z"
    and "shape cont = butlast (shape z) @ [length lam]"
    and "shape line = butlast (shape z) @ [length lam]"
    and "shape (tau0R cb lam p H) = [length lam]"
    and "shape (tau0M cb lam) = [length lam]"
  shows "\<exists>c l. apply_scattering cb lam z p H Rayleigh Mie Xag cont line = Inr (c, l)
           \<and> shape c = butlast (shape z) @ [length lam]
           \<and> shape l = butlast (shape z) @ [length lam]"
proof -
  let ?out = "butlast (shape z) @ [length lam]"
  let ?fR = "fst (airglow_scattering z)" and ?fM = "snd (airglow_scattering z)"
  have fs: "shape ?fR = shape z" "shape ?fM = shape z"
    by (simp_all add: airglow_scattering_def Let_def)
  have z0: "shape (zeros_like cont) = ?out"
    using assms(3) by (simp add: zeros_like_def)
  obtain t1 where t1: "(if Rayleigh
                then bind_err (broadcast2 (*) ?fR (tau0R cb lam p H)) (iadd (zeros_like cont))
                else Inr (zeros_like cont)) = Inr t1" "shape t1 = ?out"
  proof (cases Rayleigh)
    case True
    have "broadcast_shapes (shape ?fR) (shape (tau0R cb lam p H)) = Some ?out"
      using assms(1,5) fs by (simp add: bs_z_row)
    then obtain r where r: "broadcast2 (*) ?fR (tau0R cb lam p H) = Inr r" "shape r = ?out"
      using broadcast2_shape by blast
    then obtain t where "iadd (zeros_like cont) r = Inr t" "shape t = shape (zeros_like cont)"
      using iadd_shape [of r "zeros_like cont"] z0 by auto
    with True r z0 that show ?thesis by (simp add: bind_err_def)
  next
    case False
    with z0 that show ?thesis by simp
  qed
  obtain t2 where t2: "(if Mie
                then bind_err (broadcast2 (*) ?fM (tau0M cb lam)) (iadd t1)
                else Inr t1) = Inr t2" "shape t2 = ?out"
  proof (cases Mie)
    case True
    have "broadcast_shapes (shape ?fM) (shape (tau0M cb lam)) = Some ?out"
      using assms(1,6) fs by (simp add: bs_z_row)
    then obtain r where r: "broadcast2 (*) ?fM (tau0M cb lam) = Inr r" "shape r = ?out"
      using broadcast2_shape by blast
    then obtain t where "iadd t1 r = Inr t" "shape t = shape t1"
      using iadd_shape [of r t1] t1(2) by auto
    with True r t1 that show ?thesis by (simp add: bind_err_def)
  next
    case False
    with t1 that show ?thesis by simp
  qed
  have "broadcast_shapes (shape (ufunc uminus t2)) (shape Xag) = Some ?out"
    using assms(1,2) t2(2) by (simp add: bs_stack_z)
  then obtain e where e: "broadcast2 (*) (ufunc uminus t2) Xag = Inr e" "shape e = ?out"
    using broadcast2_shape by blast
  have "broadcast_shapes (shape cont) (shape (ufunc exp e)) = Some ?out"
    using assms(3) e(2) by simp
  then obtain c where c: "broadcast2 (*) cont (ufunc exp e) = Inr c" "shape c = ?out"
    using broadcast2_shape by blast
  have "broadcast_shapes (shape line) (shape (ufunc exp e)) = Some ?out"
    using assms(4) e(2) by simp
  then obtain l where l: "broadcast2 (*) line (ufunc exp e) = Inr l" "shape l = ?out"
    using broadcast2_shape by blast
  show ?thesis
    using t1 t2 e c l by (simp add: apply_scattering_def Let_def bind_err_def)
qed

lemma airglow_pipeline_shape:
  assumes "collaborators_ok cb atm lam p H" and "shape z = [] \<or> last (shape z) = 1"
  shows "\<exists>c l. airglow_pipeline cb atm lam z p H Rayleigh Mie True = Inr (c, l)
           \<and> shape c = butlast (shape z) @ [length lam]
           \<and> shape l = butlast (shape z) @ [length lam]"
proof -
  let ?out = "butlast (shape z) @ [length lam]"
  let ?rs = "resample_density (resample_row cb) lam (wavelength atm)"
  from assms(1) have ok: "length (airglow_cont atm) = length (trans_ma atm)"
    "length (airglow_line atm) = length (trans_ma atm)"
    "shape (tau0R cb lam p H) = [length lam]" "shape (tau0M cb lam) = [length lam]"
    by (simp_all add: collaborators_ok_def)
  obtain c l where a: "apply_absorption atm (airmass_ag z) (array1 (airglow_cont atm))
        (array1 (airglow_line atm)) = Inr (c, l)"
      "shape c = butlast (shape z) @ [length (trans_ma atm)]"
      "shape l = butlast (shape z) @ [length (trans_ma atm)]"
    using apply_absorption_shape [of "airmass_ag z" "array1 (airglow_cont atm)" atm
        "array1 (airglow_line atm)"] assms(2) ok(1,2)
    by (auto simp: array1_def)
  have rs: "shape (?rs c) = ?out" "shape (?rs l) = ?out"
    using a(2,3) by (simp_all add: resample_density_def)
  show ?thesis
  proof (cases "Rayleigh \<or> Mie")
    case True
    obtain c' l' where "apply_scattering cb lam z p H Rayleigh Mie (airmass_ag z) (?rs c) (?rs l)
        = Inr (c', l')" "shape c' = ?out" "shape l' = ?out"
      using apply_scattering_shape [OF assms(2) _ rs ok(3,4), of "airmass_ag z" Rayleigh Mie]
      by auto
    with True a show ?thesis
      by (simp add: airglow_pipeline_def Let_def bind_err_def)
  next
    case False
    with a rs show ?thesis
      by (simp add: airglow_pipeline_def Let_def bind_err_def)
  qed
qed

section \<open>Properties of get\_airglow\<close>

lemma wf_scalar_not_compressed:
  assumes "wf_nd z" "shape z = []"
  shows "\<not> 4 * size_nd (unique z) < 3 * size_nd z"
proof -
  from assms have "length (data z) = 1" by (simp add: wf_nd_def)
  then obtain x where "data z = [x]" by (cases "data z") auto
  then show ?thesis using assms by (simp add: unique_def array1_def size_nd_def)
qed

lemma compress_z_uncompressed:
  "\<not> 4 * size_nd (unique z) < 3 * size_nd z \<Longrightarrow> compress_z z = Inr (z, None)"
  by (simp add: compress_z_def Let_def)

lemma compress_z_compressed:
  "4 * size_nd (unique z) < 3 * size_nd z \<Longrightarrow> shape z \<noteq> [] \<Longrightarrow> last (shape z) = 1
    \<Longrightarrow> compress_z z = Inr (reshape_col (unique z),
          Some (searchsorted (unique z) (z\<lparr>shape := butlast (shape z)\<rparr>)))"
  by (cases "shape z") (simp_all add: compress_z_def Let_def squeeze_last_def bind_err_def)

lemma compress_z_assert:
  "4 * size_nd (unique z) < 3 * size_nd z \<Longrightarrow> shape z \<noteq> [] \<Longrightarrow> last (shape z) \<noteq> 1
    \<Longrightarrow> compress_z z = Inl (AssertionError [])"
  by (cases "shape z") (simp_all add: compress_z_def Let_def)

lemma searchsorted_less:
  "x \<in> set us \<Longrightarrow> length (takeWhile (\<lambda>u. u < x) us) < length (us :: real list)"
  by (induction us) auto

lemma take_rows_shape:
  "shape a = n # rest \<Longrightarrow> list_all (\<lambda>i. i < n) (data idx)
    \<Longrightarrow> \<exists>c. take_rows a idx = Inr c \<and> shape c = shape idx @ rest"
  by (simp add: take_rows_def)

lemma searchsorted_unique_bound:
  "list_all (\<lambda>i. i < length (data (unique z)))
     (data (searchsorted (unique z) (z\<lparr>shape := s\<rparr>)))"
proof -
  have "length (takeWhile (\<lambda>u. u < x) (sort (remdups (data z))))
      < length (sort (remdups (data z)))" if "x \<in> set (data z)" for x
    using that by (intro searchsorted_less) simp
  then show ?thesis
    by (simp add: searchsorted_def unique_def array1_def list_all_iff del: length_sort)
qed

text \<open>
  With absorption enabled, \<open>get_airglow\<close> returns two arrays of shape
  \<open>z.shape[:-1] + lam.shape\<close> for a scalar \<open>z\<close> and for a \<open>z\<close> with a last axis of
  size 1, on both paths.
\<close>

lemma get_airglow_shape:
  assumes ok: "collaborators_ok cb atm lam p H" and wf: "wf_nd z"
    and tr: "shape z = [] \<or> last (shape z) = 1"
  shows "\<exists>c l. get_airglow cb atm lam z p H Rayleigh Mie True = Inr (c, l)
           \<and> shape c = butlast (shape z) @ [length lam]
           \<and> shape l = butlast (shape z) @ [length lam]"
proof (cases "4 * size_nd (unique z) < 3 * size_nd z")
  case False
  then have "compress_z z = Inr (z, None)" by (rule compress_z_uncompressed)
  then show ?thesis
    using airglow_pipeline_shape [OF ok tr, of Rayleigh Mie]
    by (auto simp: get_airglow_def bind_err_def assemble_output_def)
next
  case True
  with wf have ne: "shape z \<noteq> []" using wf_scalar_not_compressed by blast
  with tr have l1: "last (shape z) = 1" by simp
  let ?u = "unique z"
  let ?idx = "searchsorted ?u (z\<lparr>shape := butlast (shape z)\<rparr>)"
  have cz: "compress_z z = Inr (reshape_col ?u, Some ?idx)"
    using True ne l1 by (rule compress_z_compressed)
  have "shape (reshape_col ?u) = [] \<or> last (shape (reshape_col ?u)) = 1"
    by (simp add: reshape_col_def)
  from airglow_pipeline_shape [OF ok this, of Rayleigh Mie]
  obtain c l where p: "airglow_pipeline cb atm lam (reshape_col ?u) p H Rayleigh Mie True = Inr (c, l)"
    "shape c = [length (data ?u), length lam]" "shape l = [length (data ?u), length lam]"
    by (auto simp: reshape_col_def)
  have si: "shape ?idx = butlast (shape z)" by (simp add: searchsorted_def)
  obtain c' where c': "take_rows c ?idx = Inr c'" "shape c' = butlast (shape z) @ [length lam]"
    using take_rows_shape [OF p(2) searchsorted_unique_bound [of z "butlast (shape z)"]] si
    by auto
  obtain l' where l': "take_rows l ?idx = Inr l'" "shape l' = butlast (shape z) @ [length lam]"
    using take_rows_shape [OF p(3) searchsorted_unique_bound [of z "butlast (shape z)"]] si
    by auto
  show ?thesis
    using cz p c' l' by (simp add: get_airglow_def bind_err_def assemble_output_def)
qed

text \<open>
  A 1-D array \<open>z\<close> of \<open>n\<close> zenith angles, not compressed, is refused by the power
  \<^verbatim>\<open>trans_ma ** Xag\<close> unless the table happens to have \<open>n\<close> wavelengths.
\<close>

lemma get_airglow_vector_error:
  assumes sh: "shape z = [n]" and n: "n \<noteq> 1"
    and m: "length (trans_ma atm) \<noteq> n" "length (trans_ma atm) \<noteq> 1"
    and un: "\<not> 4 * size_nd (unique z) < 3 * size_nd z"
  shows "get_airglow cb atm lam z p H Rayleigh Mie True = Inl ValueError"
proof -
  have "broadcast_shapes [length (trans_ma atm)] [n] = None"
    using n m by (simp add: broadcast_shapes_def bc_dim_def)
  then have "broadcast2 (\<lambda>t x. t powr x) (array1 (trans_ma atm)) (airmass_ag z) = Inl ValueError"
    using sh by (simp add: broadcast2_def array1_def)
  then have "airglow_pipeline cb atm lam z p H Rayleigh Mie True = Inl ValueError"
    by (simp add: airglow_pipeline_def apply_absorption_def Let_def bind_err_def)
  with compress_z_uncompressed [OF un] show ?thesis
    by (simp add: get_airglow_def bind_err_def)
qed

text \<open>
  Claim C2, as the specification states it: when \<open>get_airglow\<close> enters compressed mode
  and the last axis of \<open>z\<close> does not have exactly one element, the call fails with a
  descriptive precondition error, not a bare assertion. It fails at \<open>z = [0, 0, 0]\<close> of
  shape \<open>(3,)\<close>: the error is the AssertionError of \<^verbatim>\<open>assert z.shape[-1] == 1\<close>,
  whose message is empty.
\<close>

theorem get_airglow_bare_assertion_counterexample:
  "get_airglow demo_collab demo_atm test_lam (array1 [0, 0, 0]) (scalar 744) (scalar 2.64)
     True True True = Inl (AssertionError [])"
  by (simp add: get_airglow_def compress_z_def unique_def array1_def size_nd_def Let_def
      bind_err_def)

text \<open>
  Claim C2, amended: when \<open>get_airglow\<close> enters compressed mode (the distinct values of
  \<open>z\<close> are fewer than 3/4 of its elements) and the last axis of \<open>z\<close> does not have
  exactly one element, the call fails at once, whatever the other arguments, with an
  AssertionError that has no message.
\<close>

theorem get_airglow_compressed_assertion:
  "wf_nd z \<Longrightarrow> 4 * size_nd (unique z) < 3 * size_nd z \<Longrightarrow> last (shape z) \<noteq> 1
    \<Longrightarrow> get_airglow cb atm lam z p H Rayleigh Mie absorption = Inl (AssertionError [])"
proof -
  assume wf: "wf_nd z" and c: "4 * size_nd (unique z) < 3 * size_nd z"
    and l: "last (shape z) \<noteq> 1"
  from wf c have "shape z \<noteq> []" using wf_scalar_not_compressed by blast
  with c l have "compress_z z = Inl (AssertionError [])" by (intro compress_z_assert)
  then show ?thesis by (simp add: get_airglow_def bind_err_def)
qed

theorem get_airglow_compressed_assertion_witness:
  "get_airglow demo_collab demo_atm test_lam \<lparr>shape = [2, 2], data = [10, 10, 10, 10]\<rparr>
     (scalar 744) (scalar 2.64) True False True = Inl (AssertionError [])"
  using get_airglow_compressed_assertion
    [of "\<lparr>shape = [2, 2], data = [10, 10, 10, 10]\<rparr>" demo_collab demo_atm test_lam
      "scalar 744" "scalar 2.64" True False True]
  by (simp add: wf_nd_def unique_def array1_def size_nd_def)

text \<open>
  Claim C4, as the specification states it: \<open>get_airglow\<close> returns for a \<open>z\<close> of any
  shape on the uncompressed path. It fails at \<open>z = [0, 10, 20]\<close> of shape \<open>(3,)\<close>, three
  distinct angles in \<open>[0, 90)\<close>: the power \<^verbatim>\<open>trans_ma ** Xag\<close> of a table of four
  wavelengths and three airmasses does not broadcast.
\<close>

theorem get_airglow_any_shape_counterexample:
  "get_airglow demo_collab demo_atm test_lam (array1 [0, 10, 20]) (scalar 744) (scalar 2.64)
     True True True = Inl ValueError"
  by (simp add: get_airglow_def compress_z_def unique_def array1_def size_nd_def Let_def
      bind_err_def airglow_pipeline_def apply_absorption_def broadcast2_def
      broadcast_shapes_def bc_dim_def demo_atm_def airmass_ag_eq ufunc_def)

text \<open>
  Claim C4, amended: with absorption enabled and every setting of the Rayleigh and Mie
  switches, \<open>get_airglow\<close> returns a pair of arrays for every \<open>z\<close> that is a scalar or
  has a last axis of size 1 (so that it broadcasts against the wavelength axis), given a
  table with aligned columns and optical depths over the wavelength grid.
\<close>

theorem get_airglow_returns:
  "collaborators_ok cb atm lam p H \<Longrightarrow> wf_nd z \<Longrightarrow> shape z = [] \<or> last (shape z) = 1
    \<Longrightarrow> \<exists>c l. get_airglow cb atm lam z p H Rayleigh Mie True = Inr (c, l)"
  using get_airglow_shape [of cb atm lam p H z Rayleigh Mie] by blast

theorem get_airglow_returns_witness:
  "\<exists>c l. get_airglow demo_collab demo_atm test_lam \<lparr>shape = [3, 1], data = [0, 10, 20]\<rparr>
     (scalar 744) (scalar 2.64) True True True = Inr (c, l)"
  using get_airglow_returns [of demo_collab demo_atm test_lam "scalar 744" "scalar 2.64"
      "\<lparr>shape = [3, 1], data = [0, 10, 20]\<rparr>" True True]
  by (simp add: collaborators_ok_def demo_collab_def demo_atm_def test_lam_def array1_def
      wf_nd_def)

text \<open>
  Claim C3, at inputs where the code departs from it: with the three switches off and
  the five wavelengths of the tests, \<open>z = [[0], [10], [20]]\<close> (uncompressed) gives two
  arrays of shape \<open>(5,)\<close> and \<open>z = [[0], [0], [0]]\<close> (compressed) two arrays of shape
  \<open>(3,)\<close>, for every table and all collaborators; the claim has \<open>(3, 5)\<close> for both.
\<close>

theorem get_airglow_switches_off_shape:
  "(\<exists>c l. get_airglow cb atm [300, 500, 700, 900, 1100]
        \<lparr>shape = [3, 1], data = [0, 10, 20]\<rparr> p H False False False = Inr (c, l)
      \<and> shape c = [5] \<and> shape l = [5])
   \<and> (\<exists>c l. get_airglow cb atm [300, 500, 700, 900, 1100]
        \<lparr>shape = [3, 1], data = [0, 0, 0]\<rparr> p H False False False = Inr (c, l)
      \<and> shape c = [3] \<and> shape l = [3])"
  by (simp add: get_airglow_def compress_z_def unique_def array1_def size_nd_def Let_def
      bind_err_def squeeze_last_def reshape_col_def searchsorted_def ufunc_def
      airglow_pipeline_def assemble_output_def take_rows_def resample_density_def)

text \<open>
  Claim C1, at an input where the code departs from it: with the three switches off,
  \<open>z = [[0], [0], [0]]\<close> takes the compressed path and \<open>get_airglow\<close> returns arrays of
  shape \<open>(3,)\<close>, while the same calculation without deduplication returns arrays of shape
  \<open>(5,)\<close>, for every table and all collaborators.
\<close>

theorem get_airglow_switches_off_compressed_differs:
  "\<exists>c l c' l'.
     get_airglow cb atm [300, 500, 700, 900, 1100]
       \<lparr>shape = [3, 1], data = [0, 0, 0]\<rparr> p H False False False = Inr (c, l)
     \<and> airglow_pipeline cb atm [300, 500, 700, 900, 1100]
       \<lparr>shape = [3, 1], data = [0, 0, 0]\<rparr> p H False False False = Inr (c', l')
     \<and> shape c = [3] \<and> shape c' = [5] \<and> shape l = [3] \<and> shape l' = [5]"
  by (simp add: get_airglow_def compress_z_def unique_def array1_def size_nd_def Let_def
      bind_err_def squeeze_last_def reshape_col_def searchsorted_def ufunc_def
      airglow_pipeline_def assemble_output_def take_rows_def resample_density_def)

section \<open>The atmosphere table is not written\<close>

lemma keeps_ret: "keeps n (ret v)"
  by (simp add: keeps_def ret_def)

lemma keeps_Pair: "keeps n (Pair r)"
  by (simp add: keeps_def)

lemma keeps_bind: "keeps n m \<Longrightarrow> (\<And>v. keeps n (k v)) \<Longrightarrow> keeps n (bind_st m k)"
  by (auto simp: keeps_def bind_st_def split: prod.splits sum.splits)

lemma keeps_alloc_bind:
  assumes "\<And>r. n \<le> r \<Longrightarrow> keeps n (k r)"
  shows "keeps n (bind_st (\<lambda>h. alloc_result (g h) h) k)"
  unfolding keeps_def
proof (intro allI impI)
  fix h :: heap assume n: "n \<le> length h"
  show "n \<le> length (snd (bind_st (\<lambda>h. alloc_result (g h) h) k h))
      \<and> take n (snd (bind_st (\<lambda>h. alloc_result (g h) h) k h)) = take n h"
  proof (cases "g h")
    case (Inl e)
    with n show ?thesis by (simp add: bind_st_def alloc_result_def)
  next
    case (Inr a)
    have "keeps n (k (length h))" using n by (rule assms)
    then have "n \<le> length (snd (k (length h) (h @ [a])))
        \<and> take n (snd (k (length h) (h @ [a]))) = take n (h @ [a])"
      using n by (simp add: keeps_def)
    with Inr n show ?thesis by (simp add: bind_st_def alloc_result_def)
  qed
qed

lemma keeps_op1_bind: "(\<And>r. n \<le> r \<Longrightarrow> keeps n (k r)) \<Longrightarrow> keeps n (bind_st (op1 f a) k)"
  using keeps_alloc_bind [of n k "\<lambda>h. f (h ! a)"] by (simp add: op1_def [abs_def])

lemma keeps_op2_bind: "(\<And>r. n \<le> r \<Longrightarrow> keeps n (k r)) \<Longrightarrow> keeps n (bind_st (op2 f a b) k)"
  using keeps_alloc_bind [of n k "\<lambda>h. f (h ! a) (h ! b)"] by (simp add: op2_def [abs_def])

lemma keeps_iop1: "n \<le> a \<Longrightarrow> keeps n (iop1 f a)"
  by (auto simp: keeps_def iop1_def write_result_def split: sum.splits)

lemma keeps_apply_absorption_st: "keeps n (apply_absorption_st t Xag cont line)"
  unfolding apply_absorption_st_def
  by (intro keeps_op1_bind keeps_op2_bind keeps_ret)

lemma keeps_apply_scattering_st:
  "keeps n (apply_scattering_st cb lam z p H Rayleigh Mie Xag cont line)"
  unfolding apply_scattering_st_def Let_def
  by (intro keeps_op1_bind keeps_op2_bind keeps_bind keeps_ret) (simp_all add: keeps_iop1 keeps_ret)

lemma keeps_assemble_output_st: "keeps n (assemble_output_st idx_out cl)"
  unfolding assemble_output_st_def
  by (cases idx_out) (auto intro!: keeps_op1_bind keeps_ret)

text \<open>Every array that is in the store when \<open>get_airglow_st\<close> starts is kept.\<close>

lemma keeps_get_airglow_st:
  "keeps n (get_airglow_st cb t lam z p H Rayleigh Mie absorption)"
  unfolding get_airglow_st_def Let_def
  by (intro keeps_bind keeps_Pair keeps_op1_bind keeps_op2_bind keeps_assemble_output_st)
    (simp_all add: keeps_apply_absorption_st keeps_apply_scattering_st keeps_ret)


lemma array1_data: "is_1d a \<Longrightarrow> array1 (data a) = a"
  by (cases a) (simp add: is_1d_def array1_def)



lemma apply_absorption_st_agrees:
  "cont < length h \<Longrightarrow> line < length h \<Longrightarrow> trans_ma_ref t < length h
    \<Longrightarrow> h ! trans_ma_ref t = array1 (trans_ma atm)
    \<Longrightarrow> agrees (apply_absorption_st t Xag cont line h)
          (apply_absorption atm Xag (h ! cont) (h ! line))"
  by (auto simp: agrees_def apply_absorption_st_def apply_absorption_def bind_st_def bind_err_def
      op1_def op2_def alloc_result_def ret_def nth_append split: sum.splits)



lemma bind_st_ret: "bind_st (ret v) k h = k v h"
  by (simp add: bind_st_def ret_def)

lemma bind_st_op1:
  "bind_st (op1 f a) k h = (case f (h ! a) of Inl e \<Rightarrow> (Inl e, h) | Inr x \<Rightarrow> k (length h) (h @ [x]))"
  by (simp add: bind_st_def op1_def alloc_result_def split: sum.splits)

lemma bind_st_op2:
  "bind_st (op2 f a b) k h
    = (case f (h ! a) (h ! b) of Inl e \<Rightarrow> (Inl e, h) | Inr x \<Rightarrow> k (length h) (h @ [x]))"
  by (simp add: bind_st_def op2_def alloc_result_def split: sum.splits)

lemma bind_st_iop1:
  "bind_st (iop1 f a) k h = (case f (h ! a) of Inl e \<Rightarrow> (Inl e, h) | Inr x \<Rightarrow> k () (h[a := x]))"
  by (simp add: bind_st_def iop1_def write_result_def split: sum.splits)

lemma apply_scattering_st_agrees:
  "cont < length h \<Longrightarrow> line < length h
    \<Longrightarrow> agrees (apply_scattering_st cb lam z p H Rayleigh Mie Xag cont line h)
          (apply_scattering cb lam z p H Rayleigh Mie Xag (h ! cont) (h ! line))"
  unfolding apply_scattering_st_def apply_scattering_def Let_def
  by (cases Rayleigh; cases Mie)
     (auto simp: agrees_def bind_st_ret bind_st_op1 bind_st_op2 bind_st_iop1 ret_def
        bind_err_def nth_append split: sum.splits)


lemma assemble_output_st_agrees:
  "fst cl < length h \<Longrightarrow> snd cl < length h
    \<Longrightarrow> agrees (assemble_output_st idx_out cl h)
          (assemble_output idx_out (h ! fst cl, h ! snd cl))"
  by (auto simp: agrees_def assemble_output_st_def assemble_output_def bind_st_def bind_err_def
      op1_def alloc_result_def ret_def nth_append split: sum.splits option.splits)




lemma keeps_step:
  "keeps (length h) m \<Longrightarrow> agrees (m h) v \<Longrightarrow> step_ok h (m h) v"
  by (simp add: keeps_def step_ok_def)

lemma bind_err_assoc: "bind_err (bind_err m f) g = bind_err m (\<lambda>x. bind_err (f x) g)"
  by (simp add: bind_err_def split: sum.splits)

lemma agrees_bind_step:
  assumes "step_ok h (m h) pv"
    and "\<And>cl h'. length h \<le> length h' \<Longrightarrow> take (length h) h' = h \<Longrightarrow> fst cl < length h'
          \<Longrightarrow> snd cl < length h' \<Longrightarrow> agrees (k cl h') (pk (h' ! fst cl, h' ! snd cl))"
  shows "agrees (bind_st m k h) (bind_err pv pk)"
proof (cases "m h")
  case (Pair r h')
  show ?thesis
  proof (cases r)
    case (Inl e)
    with Pair assms(1) show ?thesis
      by (simp add: step_ok_def agrees_def bind_st_def bind_err_def)
  next
    case (Inr cl)
    with Pair assms(1) have "length h \<le> length h'" "take (length h) h' = h"
      "fst cl < length h'" "snd cl < length h'" "pv = Inr (h' ! fst cl, h' ! snd cl)"
      by (simp_all add: step_ok_def agrees_def)
    with assms(2) [of h' cl] Pair Inr show ?thesis
      by (simp add: bind_st_def bind_err_def)
  qed
qed

lemma bind_st_Pair: "bind_st (Pair (Inr v)) k h = k v h"
  by (simp add: bind_st_def)

lemma bind_st_op1_Inr: "bind_st (op1 Inr a) k h = k (length h) (h @ [h ! a])"
  by (simp add: bind_st_def op1_def alloc_result_def)

lemma bind_st_op2_Inr:
  "bind_st (op2 (\<lambda>x y. Inr (f x y)) a b) k h = k (length h) (h @ [f (h ! a) (h ! b)])"
  by (simp add: bind_st_def op2_def alloc_result_def)

lemma bind_err_Inr: "bind_err (Inr v) f = f v"
  by (simp add: bind_err_def)

lemma nth_app1: "(h @ a # b # r) ! Suc (length h) = b"
  by (simp add: nth_append)

lemma nth_app2: "(h @ a # b # c # r) ! Suc (Suc (length h)) = c"
  by (simp add: nth_append)

lemma nth_kept: "take n h' = take n h \<Longrightarrow> r < n \<Longrightarrow> h' ! r = h ! r"
  by (metis nth_take)

text \<open>
  On a store that holds the table as 1-D arrays, \<open>get_airglow_st\<close> raises the error or
  returns the arrays that \<open>get_airglow\<close> does on the table as a value.
\<close>

lemma get_airglow_st_agrees:
  assumes tin: "table_in_heap h t"
    and d1: "is_1d (h ! wavelength_ref t)" "is_1d (h ! airglow_cont_ref t)"
      "is_1d (h ! airglow_line_ref t)" "is_1d (h ! trans_ma_ref t)"
  shows "agrees (get_airglow_st cb t lam z p H Rayleigh Mie absorption h)
          (get_airglow cb (table_at h t) lam z p H Rayleigh Mie absorption)"
proof (cases "compress_z z")
  case (Inl e)
  then show ?thesis
    by (simp add: get_airglow_st_def get_airglow_def bind_st_def bind_err_def agrees_def)
next
  case (Inr zi)
  let ?atm = "table_at h t"
  let ?Xag = "airmass_ag (fst zi)"
  let ?n = "length h"
  let ?h2 = "h @ [h ! airglow_cont_ref t, h ! airglow_line_ref t]"
  let ?rs = "resample_density (resample_row cb) lam (wavelength ?atm)"
  let ?A = "if absorption then apply_absorption_st t ?Xag ?n (Suc ?n) else ret (?n, Suc ?n)"
  let ?pA = "if absorption
             then apply_absorption ?atm ?Xag (array1 (airglow_cont ?atm)) (array1 (airglow_line ?atm))
             else Inr (array1 (airglow_cont ?atm), array1 (airglow_line ?atm))"
  let ?K = "\<lambda>cl. bind_st (op1 Inr (wavelength_ref t)) (\<lambda>ag_lam.
     bind_st (op2 (\<lambda>g c. Inr (resample_density (resample_row cb) lam (data g) c))
                ag_lam (fst cl)) (\<lambda>cont.
     bind_st (op2 (\<lambda>g l. Inr (resample_density (resample_row cb) lam (data g) l))
                ag_lam (snd cl)) (\<lambda>line.
     bind_st (if Rayleigh \<or> Mie
              then apply_scattering_st cb lam (fst zi) p H Rayleigh Mie ?Xag cont line
              else ret (cont, line))
       (assemble_output_st (snd zi)))))"
  let ?pS = "\<lambda>cl. if Rayleigh \<or> Mie
       then apply_scattering cb lam (fst zi) p H Rayleigh Mie ?Xag (?rs (fst cl)) (?rs (snd cl))
       else Inr (?rs (fst cl), ?rs (snd cl))"
  from tin have refs: "wavelength_ref t < ?n" "airglow_cont_ref t < ?n"
    "airglow_line_ref t < ?n" "trans_ma_ref t < ?n"
    by (simp_all add: table_in_heap_def)
  have tab: "array1 (airglow_cont ?atm) = h ! airglow_cont_ref t"
    "array1 (airglow_line ?atm) = h ! airglow_line_ref t"
    "array1 (trans_ma ?atm) = h ! trans_ma_ref t"
    using d1 by (simp_all add: table_at_def array1_data)
  have st: "get_airglow_st cb t lam z p H Rayleigh Mie absorption h = bind_st ?A ?K ?h2"
    using refs Inr
    by (simp add: get_airglow_st_def bind_st_Pair bind_st_op1_Inr nth_append Let_def)
  have pure: "get_airglow cb ?atm lam z p H Rayleigh Mie absorption
      = bind_err ?pA (\<lambda>cl. bind_err (?pS cl) (assemble_output (snd zi)))"
    using Inr
    by (simp add: get_airglow_def airglow_pipeline_def Let_def bind_err_Inr bind_err_assoc)
  have A: "step_ok ?h2 (?A ?h2) ?pA"
  proof (cases absorption)
    case True
    have "agrees (apply_absorption_st t ?Xag ?n (Suc ?n) ?h2)
        (apply_absorption ?atm ?Xag (?h2 ! ?n) (?h2 ! Suc ?n))"
      using refs tab by (intro apply_absorption_st_agrees) (simp_all add: nth_append)
    then show ?thesis
      using True tab keeps_apply_absorption_st [of "length ?h2" t ?Xag ?n "Suc ?n"]
      by (simp add: keeps_step nth_app1 del: length_append)
  next
    case False
    then show ?thesis
      using tab by (simp add: step_ok_def agrees_def ret_def nth_app1)
  qed
  have K: "agrees (?K cl h3) (bind_err (?pS (h3 ! fst cl, h3 ! snd cl)) (assemble_output (snd zi)))"
    if h3: "length ?h2 \<le> length h3" "take (length ?h2) h3 = ?h2"
      and cl: "fst cl < length h3" "snd cl < length h3" for cl h3
  proof -
    let ?m = "length h3"
    let ?c = "?rs (h3 ! fst cl)" and ?l = "?rs (h3 ! snd cl)"
    let ?h6 = "h3 @ [h3 ! wavelength_ref t, ?c, ?l]"
    let ?S = "if Rayleigh \<or> Mie
              then apply_scattering_st cb lam (fst zi) p H Rayleigh Mie ?Xag (Suc ?m) (Suc (Suc ?m))
              else ret (Suc ?m, Suc (Suc ?m))"
    have "h3 ! wavelength_ref t = ?h2 ! wavelength_ref t"
      using h3(2) refs(1) by (intro nth_kept [of "length ?h2"]) simp_all
    then have w: "data (h3 ! wavelength_ref t) = wavelength ?atm"
      using refs(1) by (simp add: nth_append table_at_def)
    have k: "?K cl h3 = bind_st ?S (assemble_output_st (snd zi)) ?h6"
      using cl w
      by (simp add: bind_st_op1_Inr bind_st_op2_Inr nth_append)
    have S: "step_ok ?h6 (?S ?h6) (?pS (h3 ! fst cl, h3 ! snd cl))"
    proof (cases "Rayleigh \<or> Mie")
      case True
      have "agrees (apply_scattering_st cb lam (fst zi) p H Rayleigh Mie ?Xag (Suc ?m) (Suc (Suc ?m)) ?h6)
          (apply_scattering cb lam (fst zi) p H Rayleigh Mie ?Xag (?h6 ! Suc ?m) (?h6 ! Suc (Suc ?m)))"
        by (intro apply_scattering_st_agrees) simp_all
      then show ?thesis
        using True keeps_apply_scattering_st [of "length ?h6" cb lam "fst zi" p H Rayleigh Mie ?Xag
            "Suc ?m" "Suc (Suc ?m)"]
        by (simp add: keeps_step nth_app1 nth_app2 del: length_append)
    next
      case False
      then show ?thesis
        by (simp add: step_ok_def agrees_def ret_def nth_app1 nth_app2)
    qed
    show ?thesis
      unfolding k
      by (rule agrees_bind_step [where m = "?S" and h = "?h6", OF S]) (rule assemble_output_st_agrees)
  qed
  show ?thesis
    unfolding st pure by (rule agrees_bind_step [where m = "?A" and h = "?h2", OF A]) (rule K)
qed

text \<open>
  Claim C5: \<open>get_airglow\<close> does not write the shared atmosphere table. Whatever the
  arguments, and whether the call returns or raises, every array that was in the store
  before the call is the same after it; so are the four columns of the table.
\<close>

theorem get_airglow_st_table_unchanged:
  "table_in_heap h t \<Longrightarrow>
   (let h' = snd (get_airglow_st cb t lam z p H Rayleigh Mie absorption h)
    in take (length h) h' = h
       \<and> h' ! wavelength_ref t = h ! wavelength_ref t
       \<and> h' ! airglow_cont_ref t = h ! airglow_cont_ref t
       \<and> h' ! airglow_line_ref t = h ! airglow_line_ref t
       \<and> h' ! trans_ma_ref t = h ! trans_ma_ref t
       \<and> table_at h' t = table_at h t)"
proof -
  let ?h' = "snd (get_airglow_st cb t lam z p H Rayleigh Mie absorption h)"
  assume tin: "table_in_heap h t"
  have "keeps (length h) (get_airglow_st cb t lam z p H Rayleigh Mie absorption)"
    by (rule keeps_get_airglow_st)
  then have k: "take (length h) ?h' = take (length h) h"
    by (simp add: keeps_def)
  from tin have r: "wavelength_ref t < length h" "airglow_cont_ref t < length h"
    "airglow_line_ref t < length h" "trans_ma_ref t < length h"
    by (simp_all add: table_in_heap_def)
  have n: "?h' ! wavelength_ref t = h ! wavelength_ref t"
    "?h' ! airglow_cont_ref t = h ! airglow_cont_ref t"
    "?h' ! airglow_line_ref t = h ! airglow_line_ref t"
    "?h' ! trans_ma_ref t = h ! trans_ma_ref t"
    by (rule nth_kept [OF k r(1)], rule nth_kept [OF k r(2)], rule nth_kept [OF k r(3)],
        rule nth_kept [OF k r(4)])
  show ?thesis
    using k n by (simp add: Let_def table_at_def)
qed

theorem get_airglow_st_table_unchanged_witness:
  "(let h' = snd (get_airglow_st demo_collab demo_refs test_lam
                    \<lparr>shape = [3, 1], data = [0, 10, 20]\<rparr> (scalar 744) (scalar 2.64)
                    True True True demo_heap)
    in take (length demo_heap) h' = demo_heap
       \<and> h' ! wavelength_ref demo_refs = demo_heap ! wavelength_ref demo_refs
       \<and> h' ! airglow_cont_ref demo_refs = demo_heap ! airglow_cont_ref demo_refs
       \<and> h' ! airglow_line_ref demo_refs = demo_heap ! airglow_line_ref demo_refs
       \<and> h' ! trans_ma_ref demo_refs = demo_heap ! trans_ma_ref demo_refs
       \<and> table_at h' demo_refs = table_at demo_heap demo_refs)"
proof -
  have "table_in_heap demo_heap demo_refs"
    by (simp add: table_in_heap_def demo_heap_def demo_refs_def)
  then show ?thesis
    by (rule get_airglow_st_table_unchanged)
qed

section \<open>The compressed path, row by row\<close>

lemma ufunc_stacked: "ufunc f (stacked s m g zs) = stacked s m (\<lambda>v. map f (g v)) zs"
  by (simp add: ufunc_def stacked_def map_concat comp_def)

lemma ufunc_column: "ufunc f (column s zs) = column s (map f zs)"
  by (simp add: ufunc_def column_def)

lemma broadcast2_row_column:
  assumes "length zs = prod_list s"
  shows "broadcast2 f (array1 ts) (column s zs)
    = Inr (stacked s (length ts) (\<lambda>v. map (\<lambda>t. f t v) ts) zs)"
proof -
  let ?m = "length ts"
  have "map (\<lambda>k. f (ts ! src_index [?m] (s @ [?m]) k) (zs ! src_index (s @ [1]) (s @ [?m]) k))
          [0..<prod_list s * ?m]
        = concat (map (\<lambda>v. map (\<lambda>t. f t v) ts) zs)"
  proof (rule stack_eqI [where m = ?m])
    show "length zs * ?m = prod_list s * ?m" using assms by simp
    show "\<forall>x\<in>set zs. length (map (\<lambda>t. f t x) ts) = ?m" by simp
    fix k assume k: "k < prod_list s * ?m"
    then have "0 < ?m" by (cases "?m = 0") auto
    then have "k mod ?m < ?m" by simp
    then show "f (ts ! src_index [?m] (s @ [?m]) k) (zs ! src_index (s @ [1]) (s @ [?m]) k)
        = map (\<lambda>t. f t (zs ! (k div ?m))) ts ! (k mod ?m)"
      using k by (simp add: src_index_row src_index_col)
  qed
  then show ?thesis
    by (simp add: broadcast2_def array1_def column_def stacked_def)
qed

lemma broadcast2_column_row:
  assumes "length zs = prod_list s"
  shows "broadcast2 f (column s zs) (array1 ts)
    = Inr (stacked s (length ts) (\<lambda>v. map (f v) ts) zs)"
proof -
  let ?m = "length ts"
  have "map (\<lambda>k. f (zs ! src_index (s @ [1]) (s @ [?m]) k) (ts ! src_index [?m] (s @ [?m]) k))
          [0..<prod_list s * ?m]
        = concat (map (\<lambda>v. map (f v) ts) zs)"
  proof (rule stack_eqI [where m = ?m])
    show "length zs * ?m = prod_list s * ?m" using assms by simp
    show "\<forall>x\<in>set zs. length (map (f x) ts) = ?m" by simp
    fix k assume k: "k < prod_list s * ?m"
    then have "0 < ?m" by (cases "?m = 0") auto
    then have "k mod ?m < ?m" by simp
    then show "f (zs ! src_index (s @ [1]) (s @ [?m]) k) (ts ! src_index [?m] (s @ [?m]) k)
        = map (f (zs ! (k div ?m))) ts ! (k mod ?m)"
      using k by (simp add: src_index_row src_index_col)
  qed
  then show ?thesis
    by (simp add: broadcast2_def array1_def column_def stacked_def)
qed

lemma nth_stacked:
  assumes "\<forall>v\<in>set zs. length (g v) = m" and "k < length zs * m"
  shows "concat (map g zs) ! k = g (zs ! (k div m)) ! (k mod m)"
proof -
  from assms(2) have "0 < m" by (cases "m = 0") auto
  with assms(2) have "k div m < length zs" by (simp add: less_mult_imp_div_less)
  moreover have "concat (map g zs) ! k = map g zs ! (k div m) ! (k mod m)"
    using assms by (intro nth_concat_uniform) auto
  ultimately show ?thesis by simp
qed

lemma broadcast2_row_stacked:
  assumes "length zs = prod_list s" and "\<forall>v\<in>set zs. length (g v) = length cs"
  shows "broadcast2 f (array1 cs) (stacked s (length cs) g zs)
    = Inr (stacked s (length cs) (\<lambda>v. map2 f cs (g v)) zs)"
proof -
  let ?m = "length cs"
  let ?out = "s @ [?m]"
  have "map (\<lambda>k. f (cs ! src_index [?m] ?out k) (concat (map g zs) ! src_index ?out ?out k))
          [0..<prod_list s * ?m]
        = concat (map (\<lambda>v. map2 f cs (g v)) zs)"
  proof (rule stack_eqI [where m = ?m])
    show "length zs * ?m = prod_list s * ?m" using assms by simp
    show "\<forall>x\<in>set zs. length (map2 f cs (g x)) = ?m" using assms(2) by simp
    fix k assume k: "k < prod_list s * ?m"
    then have "0 < ?m" by (cases "?m = 0") auto
    then have km: "k mod ?m < ?m" by simp
    from k \<open>0 < ?m\<close> have kd: "k div ?m < length zs"
      using assms(1) by (simp add: less_mult_imp_div_less)
    then have "length (g (zs ! (k div ?m))) = ?m" using assms(2) by simp
    with km have "map2 f cs (g (zs ! (k div ?m))) ! (k mod ?m)
        = f (cs ! (k mod ?m)) (g (zs ! (k div ?m)) ! (k mod ?m))"
      by simp
    moreover have "src_index ?out ?out k = k" using k by (intro src_index_same) simp
    moreover have "concat (map g zs) ! k = g (zs ! (k div ?m)) ! (k mod ?m)"
      using assms k by (intro nth_stacked) auto
    ultimately show "f (cs ! src_index [?m] ?out k) (concat (map g zs) ! src_index ?out ?out k)
        = map2 f cs (g (zs ! (k div ?m))) ! (k mod ?m)"
      by (simp add: src_index_row)
  qed
  then show ?thesis
    by (simp add: broadcast2_def array1_def stacked_def)
qed

lemma broadcast2_stacked_column:
  assumes "length zs = prod_list s" and "\<forall>v\<in>set zs. length (g v) = m"
  shows "broadcast2 f (stacked s m g zs) (column s (map h zs))
    = Inr (stacked s m (\<lambda>v. map (\<lambda>x. f x (h v)) (g v)) zs)"
proof -
  let ?out = "s @ [m]"
  have "map (\<lambda>k. f (concat (map g zs) ! src_index ?out ?out k)
                  (map h zs ! src_index (s @ [1]) ?out k))
          [0..<prod_list s * m]
        = concat (map (\<lambda>v. map (\<lambda>x. f x (h v)) (g v)) zs)"
  proof (rule stack_eqI [where m = m])
    show "length zs * m = prod_list s * m" using assms by simp
    show "\<forall>x\<in>set zs. length (map (\<lambda>y. f y (h x)) (g x)) = m" using assms(2) by simp
    fix k assume k: "k < prod_list s * m"
    then have "0 < m" by (cases "m = 0") auto
    then have km: "k mod m < m" by simp
    from k \<open>0 < m\<close> have kd: "k div m < length zs"
      using assms(1) by (simp add: less_mult_imp_div_less)
    then have "length (g (zs ! (k div m))) = m" using assms(2) by simp
    with km have "map (\<lambda>x. f x (h (zs ! (k div m)))) (g (zs ! (k div m))) ! (k mod m)
        = f (g (zs ! (k div m)) ! (k mod m)) (h (zs ! (k div m)))"
      by simp
    moreover have "src_index ?out ?out k = k" using k by (intro src_index_same) simp
    moreover have "concat (map g zs) ! k = g (zs ! (k div m)) ! (k mod m)"
      using assms k by (intro nth_stacked) auto
    ultimately show "f (concat (map g zs) ! src_index ?out ?out k)
                  (map h zs ! src_index (s @ [1]) ?out k)
        = map (\<lambda>x. f x (h (zs ! (k div m)))) (g (zs ! (k div m))) ! (k mod m)"
      using k kd by (simp add: src_index_col)
  qed
  then show ?thesis
    by (simp add: broadcast2_def column_def stacked_def)
qed

lemma broadcast2_stacked_stacked:
  assumes "length zs = prod_list s" and "\<forall>v\<in>set zs. length (g v) = m"
    and "\<forall>v\<in>set zs. length (g' v) = m"
  shows "broadcast2 f (stacked s m g zs) (stacked s m g' zs)
    = Inr (stacked s m (\<lambda>v. map2 f (g v) (g' v)) zs)"
proof -
  let ?out = "s @ [m]"
  have "map (\<lambda>k. f (concat (map g zs) ! src_index ?out ?out k)
                  (concat (map g' zs) ! src_index ?out ?out k))
          [0..<prod_list s * m]
        = concat (map (\<lambda>v. map2 f (g v) (g' v)) zs)"
  proof (rule stack_eqI [where m = m])
    show "length zs * m = prod_list s * m" using assms by simp
    show "\<forall>x\<in>set zs. length (map2 f (g x) (g' x)) = m" using assms(2,3) by simp
    fix k assume k: "k < prod_list s * m"
    then have "0 < m" by (cases "m = 0") auto
    then have km: "k mod m < m" by simp
    from k \<open>0 < m\<close> have kd: "k div m < length zs"
      using assms(1) by (simp add: less_mult_imp_div_less)
    then have "length (g (zs ! (k div m))) = m" "length (g' (zs ! (k div m))) = m"
      using assms(2,3) by simp_all
    with km have "map2 f (g (zs ! (k div m))) (g' (zs ! (k div m))) ! (k mod m)
        = f (g (zs ! (k div m)) ! (k mod m)) (g' (zs ! (k div m)) ! (k mod m))"
      by simp
    moreover have "src_index ?out ?out k = k" using k by (intro src_index_same) simp
    moreover have "concat (map g zs) ! k = g (zs ! (k div m)) ! (k mod m)"
      using assms k by (intro nth_stacked) auto
    moreover have "concat (map g' zs) ! k = g' (zs ! (k div m)) ! (k mod m)"
      using assms k by (intro nth_stacked) auto
    ultimately show "f (concat (map g zs) ! src_index ?out ?out k)
                  (concat (map g' zs) ! src_index ?out ?out k)
        = map2 f (g (zs ! (k div m))) (g' (zs ! (k div m))) ! (k mod m)"
      by simp
  qed
  then show ?thesis
    by (simp add: broadcast2_def stacked_def)
qed

lemma rows_nd_stacked:
  assumes "length zs = prod_list s" and "\<forall>v\<in>set zs. length (g v) = m"
  shows "rows_nd (stacked s m g zs) = map g zs"
proof -
  have "map (\<lambda>i. take m (drop (i * m) (concat (map g zs)))) [0..<length zs] = map g zs"
  proof (rule nth_equalityI)
    show "length (map (\<lambda>i. take m (drop (i * m) (concat (map g zs)))) [0..<length zs])
        = length (map g zs)" by simp
  next
    fix i assume "i < length (map (\<lambda>i. take m (drop (i * m) (concat (map g zs)))) [0..<length zs])"
    then have i: "i < length zs" by simp
    then have "take m (drop (i * m) (concat (map g zs))) = map g zs ! i"
      using assms(2) by (intro take_drop_concat_uniform) auto
    with i show "map (\<lambda>i. take m (drop (i * m) (concat (map g zs)))) [0..<length zs] ! i
        = map g zs ! i" by simp
  qed
  then show ?thesis
    using assms(1) by (simp add: rows_nd_def stacked_def)
qed

lemma resample_density_stacked:
  assumes "length zs = prod_list s" and "\<forall>v\<in>set zs. length (g v) = m"
  shows "resample_density rs lam src (stacked s m g zs)
    = stacked s (length lam) (\<lambda>v. rs lam src (g v)) zs"
  using rows_nd_stacked [OF assms]
  by (simp add: resample_density_def) (simp add: stacked_def comp_def)

lemma take_rows_stacked:
  assumes "\<forall>v\<in>set us. length (g v) = m" and "list_all (\<lambda>i. i < length us) (data idx)"
  shows "take_rows (stacked [length us] m g us) idx
    = Inr \<lparr>shape = shape idx @ [m], data = concat (map (\<lambda>i. g (us ! i)) (data idx))\<rparr>"
proof -
  have "take m (drop (i * m) (concat (map g us))) = g (us ! i)" if "i \<in> set (data idx)" for i
  proof -
    from that assms(2) have i: "i < length us" by (simp add: list_all_iff)
    then have "take m (drop (i * m) (concat (map g us))) = map g us ! i"
      using assms(1) by (intro take_drop_concat_uniform) auto
    with i show ?thesis by simp
  qed
  then have "map (\<lambda>i. take m (drop (i * m) (concat (map g us)))) (data idx)
      = map (\<lambda>i. g (us ! i)) (data idx)"
    by (intro map_cong refl)
  then have "concat (map (\<lambda>i. take m (drop (i * m) (concat (map g us)))) (data idx))
      = concat (map (\<lambda>i. g (us ! i)) (data idx))"
    by (rule arg_cong)
  then show ?thesis
    using assms(2) by (simp add: take_rows_def stacked_def)
qed

lemma stacked_map: "stacked s m g (map h zs) = stacked s m (\<lambda>v. g (h v)) zs"
  by (simp add: stacked_def comp_def)

lemma shape_stacked [simp]: "shape (stacked s m g zs) = s @ [m]"
  by (simp add: stacked_def)

lemma shape_column [simp]: "shape (column s zs) = s @ [1]"
  by (simp add: column_def)

lemma airmass_ag_column: "airmass_ag (column s zs) = column s (map airmass_at zs)"
  by (simp add: airmass_ag_eq ufunc_column)

lemma airglow_scattering_column:
  "fst (airglow_scattering (column s zs))
     = column s (map (\<lambda>v. 1.669 * log 10 (airmass_at v) - 0.146) zs)"
  "snd (airglow_scattering (column s zs))
     = column s (map (\<lambda>v. 1.732 * log 10 (airmass_at v) - 0.318) zs)"
  by (simp_all add: airglow_scattering_def Let_def airmass_ag_column ufunc_column comp_def)

lemma iadd_stacked:
  assumes "length zs = prod_list s" and "\<forall>v\<in>set zs. length (g v) = m"
    and "\<forall>v\<in>set zs. length (g' v) = m"
  shows "iadd (stacked s m g zs) (stacked s m g' zs)
    = Inr (stacked s m (\<lambda>v. map2 (+) (g v) (g' v)) zs)"
  using broadcast2_stacked_stacked [OF assms, of "(+)"] by (simp add: iadd_def)

lemma apply_absorption_column:
  assumes n: "length zs = prod_list s"
    and c: "length c = length (trans_ma atm)" and l: "length l = length (trans_ma atm)"
  shows "apply_absorption atm (column s (map airmass_at zs)) (array1 c) (array1 l)
    = Inr (stacked s (length (trans_ma atm))
             (\<lambda>v. map2 (*) c (map (\<lambda>t. t powr airmass_at v) (trans_ma atm))) zs,
           stacked s (length (trans_ma atm))
             (\<lambda>v. map2 (*) l (map (\<lambda>t. t powr airmass_at v) (trans_ma atm))) zs)"
proof -
  let ?tm = "trans_ma atm"
  let ?T = "stacked s (length ?tm) (\<lambda>v. map (\<lambda>t. t powr airmass_at v) ?tm) zs"
  have t: "broadcast2 (\<lambda>t x. t powr x) (array1 ?tm) (column s (map airmass_at zs)) = Inr ?T"
    using n by (simp add: broadcast2_row_column stacked_map)
  have cc: "broadcast2 (*) (array1 c) ?T
      = Inr (stacked s (length ?tm) (\<lambda>v. map2 (*) c (map (\<lambda>t. t powr airmass_at v) ?tm)) zs)"
    using broadcast2_row_stacked [of zs s "\<lambda>v. map (\<lambda>t. t powr airmass_at v) ?tm" c "(*)"] n c
    by simp
  have ll: "broadcast2 (*) (array1 l) ?T
      = Inr (stacked s (length ?tm) (\<lambda>v. map2 (*) l (map (\<lambda>t. t powr airmass_at v) ?tm)) zs)"
    using broadcast2_row_stacked [of zs s "\<lambda>v. map (\<lambda>t. t powr airmass_at v) ?tm" l "(*)"] n l
    by simp
  show ?thesis
    by (simp add: apply_absorption_def bind_err_def t cc ll)
qed

lemma stacked_cong: "(\<And>v. v \<in> set zs \<Longrightarrow> g v = g' v) \<Longrightarrow> stacked s m g zs = stacked s m g' zs"
  by (simp add: stacked_def cong: map_cong)

lemma zeros_like_stacked:
  assumes "\<forall>v\<in>set zs. length (g v) = m"
  shows "zeros_like (stacked s m g zs) = stacked s m (\<lambda>v. replicate m 0) zs"
proof -
  have "stacked s m (\<lambda>v. map (\<lambda>_. 0::real) (g v)) zs = stacked s m (\<lambda>v. replicate m 0) zs"
    using assms by (intro stacked_cong) (simp add: map_replicate_const)
  then show ?thesis by (simp add: zeros_like_def ufunc_stacked)
qed

lemma array1_wf: "shape a = [m] \<Longrightarrow> wf_nd a \<Longrightarrow> a = array1 (data a) \<and> length (data a) = m"
  by (cases a) (simp add: wf_nd_def array1_def)

lemma length_scattering_row:
  assumes "length (data (tau0R cb lam p H)) = length lam"
    and "length (data (tau0M cb lam)) = length lam"
  shows "length (scattering_row cb lam p H Rayleigh Mie v) = length lam"
  using assms by (simp add: scattering_row_def Let_def)

lemma apply_scattering_column:
  assumes n: "length zs = prod_list s"
    and gc: "\<forall>v\<in>set zs. length (gc v) = length lam"
    and gl: "\<forall>v\<in>set zs. length (gl v) = length lam"
    and tR: "shape (tau0R cb lam p H) = [length lam]" "wf_nd (tau0R cb lam p H)"
    and tM: "shape (tau0M cb lam) = [length lam]" "wf_nd (tau0M cb lam)"
  shows "apply_scattering cb lam (column s zs) p H Rayleigh Mie (column s (map airmass_at zs))
           (stacked s (length lam) gc zs) (stacked s (length lam) gl zs)
    = Inr (stacked s (length lam)
             (\<lambda>v. map2 (*) (gc v) (scattering_row cb lam p H Rayleigh Mie v)) zs,
           stacked s (length lam)
             (\<lambda>v. map2 (*) (gl v) (scattering_row cb lam p H Rayleigh Mie v)) zs)"
proof -
  let ?L = "length lam"
  let ?fr = "\<lambda>v. 1.669 * log 10 (airmass_at v) - 0.146"
  let ?fm = "\<lambda>v. 1.732 * log 10 (airmass_at v) - 0.318"
  let ?tR = "data (tau0R cb lam p H)" and ?tM = "data (tau0M cb lam)"
  let ?t0 = "\<lambda>v::real. replicate ?L (0::real)"
  let ?t1 = "\<lambda>v. if Rayleigh then map2 (+) (?t0 v) (map ((*) (?fr v)) ?tR) else ?t0 v"
  let ?t2 = "\<lambda>v. if Mie then map2 (+) (?t1 v) (map ((*) (?fm v)) ?tM) else ?t1 v"
  let ?S = "scattering_row cb lam p H Rayleigh Mie"
  from tR have R: "tau0R cb lam p H = array1 ?tR" "length ?tR = ?L"
    using array1_wf by blast+
  from tM have M: "tau0M cb lam = array1 ?tM" "length ?tM = ?L"
    using array1_wf by blast+
  have z: "zeros_like (stacked s ?L gc zs) = stacked s ?L ?t0 zs"
    using gc by (rule zeros_like_stacked)
  have pR: "broadcast2 (*) (column s (map ?fr zs)) (tau0R cb lam p H)
      = Inr (stacked s ?L (\<lambda>v. map ((*) (?fr v)) ?tR) zs)"
    using broadcast2_column_row [of "map ?fr zs" s "(*)" ?tR] n R
    by (simp add: stacked_map)
  have pM: "broadcast2 (*) (column s (map ?fm zs)) (tau0M cb lam)
      = Inr (stacked s ?L (\<lambda>v. map ((*) (?fm v)) ?tM) zs)"
    using broadcast2_column_row [of "map ?fm zs" s "(*)" ?tM] n M
    by (simp add: stacked_map)
  have l1: "\<forall>v\<in>set zs. length (?t1 v) = ?L"
    using R(2) by simp
  have l2: "\<forall>v\<in>set zs. length (?t2 v) = ?L"
    using R(2) M(2) by simp
  have s1: "(if Rayleigh
             then bind_err (broadcast2 (*) (column s (map ?fr zs)) (tau0R cb lam p H))
                    (iadd (stacked s ?L ?t0 zs))
             else Inr (stacked s ?L ?t0 zs)) = Inr (stacked s ?L ?t1 zs)"
  proof (cases Rayleigh)
    case True
    have "iadd (stacked s ?L ?t0 zs) (stacked s ?L (\<lambda>v. map ((*) (?fr v)) ?tR) zs)
        = Inr (stacked s ?L (\<lambda>v. map2 (+) (?t0 v) (map ((*) (?fr v)) ?tR)) zs)"
      using n R(2) by (intro iadd_stacked) simp_all
    with True pR show ?thesis by (simp add: bind_err_def)
  next
    case False
    then show ?thesis by simp
  qed
  have s2: "(if Mie
             then bind_err (broadcast2 (*) (column s (map ?fm zs)) (tau0M cb lam))
                    (iadd (stacked s ?L ?t1 zs))
             else Inr (stacked s ?L ?t1 zs)) = Inr (stacked s ?L ?t2 zs)"
  proof (cases Mie)
    case True
    have "iadd (stacked s ?L ?t1 zs) (stacked s ?L (\<lambda>v. map ((*) (?fm v)) ?tM) zs)
        = Inr (stacked s ?L (\<lambda>v. map2 (+) (?t1 v) (map ((*) (?fm v)) ?tM)) zs)"
      using n l1 M(2) by (intro iadd_stacked) simp_all
    with True pM show ?thesis by (simp add: bind_err_def)
  next
    case False
    then show ?thesis by simp
  qed
  have e: "broadcast2 (*) (ufunc uminus (stacked s ?L ?t2 zs)) (column s (map airmass_at zs))
      = Inr (stacked s ?L (\<lambda>v. map (\<lambda>x. x * airmass_at v) (map uminus (?t2 v))) zs)"
    unfolding ufunc_stacked using n l2 by (intro broadcast2_stacked_column) simp_all
  have S: "ufunc exp (stacked s ?L (\<lambda>v. map (\<lambda>x. x * airmass_at v) (map uminus (?t2 v))) zs)
      = stacked s ?L ?S zs"
    unfolding ufunc_stacked by (rule stacked_cong) (simp add: scattering_row_def Let_def)
  have lS: "\<forall>v\<in>set zs. length (?S v) = ?L"
    using R(2) M(2) by (simp add: length_scattering_row)
  have c: "broadcast2 (*) (stacked s ?L gc zs) (stacked s ?L ?S zs)
      = Inr (stacked s ?L (\<lambda>v. map2 (*) (gc v) (?S v)) zs)"
    using n gc lS by (rule broadcast2_stacked_stacked)
  have l: "broadcast2 (*) (stacked s ?L gl zs) (stacked s ?L ?S zs)
      = Inr (stacked s ?L (\<lambda>v. map2 (*) (gl v) (?S v)) zs)"
    using n gl lS by (rule broadcast2_stacked_stacked)
  show ?thesis
    unfolding apply_scattering_def Let_def airglow_scattering_column z
    by (simp only: s1 s2 e S c l bind_err_Inr)
qed

lemma column_eq: "shape z = s @ [1] \<Longrightarrow> z = column s (data z)"
  by (cases z) (simp add: column_def)

lemma length_airglow_row:
  assumes "collaborators_rowwise cb atm lam p H"
  shows "length (airglow_row cb atm lam p H Rayleigh Mie col v) = length lam"
proof -
  from assms have "length (data (tau0R cb lam p H)) = length lam"
    "length (data (tau0M cb lam)) = length lam"
    "\<forall>values. length (resample_row cb lam (wavelength atm) values) = length lam"
    by (simp_all add: collaborators_rowwise_def collaborators_ok_def wf_nd_def)
  then show ?thesis
    by (simp add: airglow_row_def Let_def length_scattering_row)
qed

text \<open>
  With absorption enabled, the calculation on an array of zenith angles of shape
  \<open>s + (1,)\<close> is the array of shape \<open>s + (len(lam),)\<close> whose slice for each angle is
  the spectrum of that angle.
\<close>

lemma airglow_pipeline_column:
  assumes ok: "collaborators_rowwise cb atm lam p H" and n: "length zs = prod_list s"
  shows "airglow_pipeline cb atm lam (column s zs) p H Rayleigh Mie True
    = Inr (stacked s (length lam)
             (airglow_row cb atm lam p H Rayleigh Mie (airglow_cont atm)) zs,
           stacked s (length lam)
             (airglow_row cb atm lam p H Rayleigh Mie (airglow_line atm)) zs)"
proof -
  let ?L = "length lam" and ?M = "length (trans_ma atm)"
  let ?A = "\<lambda>col v. map2 (*) col (map (\<lambda>t. t powr airmass_at v) (trans_ma atm))"
  let ?R = "\<lambda>col v. resample_row cb lam (wavelength atm) (?A col v)"
  from ok have c: "length (airglow_cont atm) = ?M" and l: "length (airglow_line atm) = ?M"
    and tR: "shape (tau0R cb lam p H) = [?L]" "wf_nd (tau0R cb lam p H)"
    and tM: "shape (tau0M cb lam) = [?L]" "wf_nd (tau0M cb lam)"
    and rs: "\<forall>values. length (resample_row cb lam (wavelength atm) values) = ?L"
    by (simp_all add: collaborators_rowwise_def collaborators_ok_def)
  have a: "apply_absorption atm (airmass_ag (column s zs)) (array1 (airglow_cont atm))
        (array1 (airglow_line atm))
      = Inr (stacked s ?M (?A (airglow_cont atm)) zs, stacked s ?M (?A (airglow_line atm)) zs)"
    unfolding airmass_ag_column using n c l by (rule apply_absorption_column)
  have rc: "resample_density (resample_row cb) lam (wavelength atm)
        (stacked s ?M (?A (airglow_cont atm)) zs) = stacked s ?L (?R (airglow_cont atm)) zs"
    using n c by (intro resample_density_stacked) simp_all
  have rl: "resample_density (resample_row cb) lam (wavelength atm)
        (stacked s ?M (?A (airglow_line atm)) zs) = stacked s ?L (?R (airglow_line atm)) zs"
    using n l by (intro resample_density_stacked) simp_all
  show ?thesis
  proof (cases "Rayleigh \<or> Mie")
    case True
    have sc: "apply_scattering cb lam (column s zs) p H Rayleigh Mie (column s (map airmass_at zs))
           (stacked s ?L (?R (airglow_cont atm)) zs) (stacked s ?L (?R (airglow_line atm)) zs)
      = Inr (stacked s ?L
             (\<lambda>v. map2 (*) (?R (airglow_cont atm) v) (scattering_row cb lam p H Rayleigh Mie v)) zs,
           stacked s ?L
             (\<lambda>v. map2 (*) (?R (airglow_line atm) v) (scattering_row cb lam p H Rayleigh Mie v)) zs)"
      using n rs tR tM by (intro apply_scattering_column) simp_all
    have "stacked s ?L
             (\<lambda>v. map2 (*) (?R col v) (scattering_row cb lam p H Rayleigh Mie v)) zs
        = stacked s ?L (airglow_row cb atm lam p H Rayleigh Mie col) zs" for col
      using True by (intro stacked_cong) (simp add: airglow_row_def Let_def)
    with sc True a rc rl show ?thesis
      by (simp add: airglow_pipeline_def Let_def bind_err_Inr airmass_ag_column)
  next
    case False
    have "stacked s ?L (?R col) zs
        = stacked s ?L (airglow_row cb atm lam p H Rayleigh Mie col) zs" for col
      using False by (intro stacked_cong) (simp add: airglow_row_def Let_def)
    with False a rc rl show ?thesis
      by (simp add: airglow_pipeline_def Let_def bind_err_Inr)
  qed
qed

lemma searchsorted_nth:
  "sorted us \<Longrightarrow> v \<in> set us \<Longrightarrow> us ! length (takeWhile (\<lambda>u. u < v) us) = (v::real)"
proof (induction us)
  case Nil
  then show ?case by simp
next
  case (Cons u us)
  show ?case
  proof (cases "u < v")
    case True
    with Cons.prems have "v \<in> set us" "sorted us" by auto
    with Cons.IH True show ?thesis by simp
  next
    case False
    with Cons.prems have "u = v" by auto
    then show ?thesis by simp
  qed
qed

text \<open>
  So is the result of \<open>get_airglow\<close>, on the compressed path as on the uncompressed
  one: gathering the spectra of the distinct angles by \<open>idx_out\<close> gives each element of
  \<open>z\<close> the spectrum of its own angle.
\<close>

lemma get_airglow_column:
  assumes ok: "collaborators_rowwise cb atm lam p H" and wf: "wf_nd z"
    and ne: "shape z \<noteq> []" and l1: "last (shape z) = 1"
  shows "get_airglow cb atm lam z p H Rayleigh Mie True
    = Inr (stacked (butlast (shape z)) (length lam)
             (airglow_row cb atm lam p H Rayleigh Mie (airglow_cont atm)) (data z),
           stacked (butlast (shape z)) (length lam)
             (airglow_row cb atm lam p H Rayleigh Mie (airglow_line atm)) (data z))"
proof -
  let ?s = "butlast (shape z)" and ?zs = "data z" and ?L = "length lam"
  let ?G = "airglow_row cb atm lam p H Rayleigh Mie"
  from ne l1 have sh: "shape z = ?s @ [1]" by (metis append_butlast_last_id)
  then have zc: "z = column ?s ?zs" by (rule column_eq)
  from sh have "prod_list (shape z) = prod_list (?s @ [1])" by (rule arg_cong)
  with wf have n: "length ?zs = prod_list ?s" by (simp add: wf_nd_def)
  have direct: "airglow_pipeline cb atm lam z p H Rayleigh Mie True
      = Inr (stacked ?s ?L (?G (airglow_cont atm)) ?zs, stacked ?s ?L (?G (airglow_line atm)) ?zs)"
    using airglow_pipeline_column [OF ok n, of Rayleigh Mie] zc by simp
  show ?thesis
  proof (cases "4 * size_nd (unique z) < 3 * size_nd z")
    case False
    then have "compress_z z = Inr (z, None)" by (rule compress_z_uncompressed)
    with direct show ?thesis
      by (simp add: get_airglow_def bind_err_Inr assemble_output_def)
  next
    case True
    let ?us = "sort (remdups ?zs)"
    let ?idx = "searchsorted (unique z) (z\<lparr>shape := ?s\<rparr>)"
    have cz: "compress_z z = Inr (reshape_col (unique z), Some ?idx)"
      using True ne l1 by (rule compress_z_compressed)
    have rc: "reshape_col (unique z) = column [length ?us] ?us"
      by (simp add: reshape_col_def unique_def array1_def column_def)
    have pu: "airglow_pipeline cb atm lam (column [length ?us] ?us) p H Rayleigh Mie True
      = Inr (stacked [length ?us] ?L (?G (airglow_cont atm)) ?us,
             stacked [length ?us] ?L (?G (airglow_line atm)) ?us)"
      using ok by (intro airglow_pipeline_column) simp_all
    have bound: "list_all (\<lambda>i. i < length ?us) (data ?idx)"
      using searchsorted_unique_bound [of z ?s] by (simp add: unique_def array1_def)
    have regather: "concat (map (\<lambda>i. ?G col (?us ! i)) (data ?idx)) = concat (map (?G col) ?zs)"
      for col
    proof -
      have "?us ! length (takeWhile (\<lambda>u. u < v) ?us) = v" if "v \<in> set ?zs" for v
        using that by (intro searchsorted_nth) simp_all
      then have "map (\<lambda>v. ?G col (?us ! length (takeWhile (\<lambda>u. u < v) ?us))) ?zs
          = map (?G col) ?zs"
        by (intro map_cong refl) simp
      then have "concat (map (\<lambda>v. ?G col (?us ! length (takeWhile (\<lambda>u. u < v) ?us))) ?zs)
          = concat (map (?G col) ?zs)"
        by (rule arg_cong)
      then show ?thesis
        by (simp add: searchsorted_def unique_def array1_def comp_def)
    qed
    have tk: "take_rows (stacked [length ?us] ?L (?G col) ?us) ?idx
        = Inr (stacked ?s ?L (?G col) ?zs)" for col
    proof -
      have "take_rows (stacked [length ?us] ?L (?G col) ?us) ?idx
          = Inr \<lparr>shape = shape ?idx @ [?L],
                 data = concat (map (\<lambda>i. ?G col (?us ! i)) (data ?idx))\<rparr>"
        using bound ok by (intro take_rows_stacked) (simp_all add: length_airglow_row)
      then show ?thesis
        unfolding regather by (simp add: stacked_def searchsorted_def)
    qed
    show ?thesis
      unfolding get_airglow_def cz bind_err_Inr fst_conv snd_conv rc pu
      by (simp add: assemble_output_def bind_err_Inr tk del: length_sort)
  qed
qed

lemma iadd_row_stack_error:
  assumes "shape a = [m]" and "shape b = s @ [m]" and "s \<noteq> []"
  shows "iadd a b = Inl ValueError"
  using assms by (simp add: iadd_def)

lemma apply_scattering_unabsorbed_error:
  assumes rm: "Rayleigh \<or> Mie" and z: "shape z = s @ [1]" and s: "s \<noteq> []"
    and c: "shape cont = [length lam]"
    and tR: "shape (tau0R cb lam p H) = [length lam]"
    and tM: "shape (tau0M cb lam) = [length lam]"
  shows "apply_scattering cb lam z p H Rayleigh Mie Xag cont line = Inl ValueError"
proof -
  let ?fR = "fst (airglow_scattering z)" and ?fM = "snd (airglow_scattering z)"
  have fs: "shape ?fR = s @ [1]" "shape ?fM = s @ [1]"
    using z by (simp_all add: airglow_scattering_def Let_def)
  have z0: "shape (zeros_like cont) = [length lam]"
    using c by (simp add: zeros_like_def)
  show ?thesis
  proof (cases Rayleigh)
    case True
    have "broadcast_shapes (shape ?fR) (shape (tau0R cb lam p H)) = Some (s @ [length lam])"
      using fs tR by simp
    then obtain r where r: "broadcast2 (*) ?fR (tau0R cb lam p H) = Inr r"
      "shape r = s @ [length lam]"
      using broadcast2_shape by blast
    have "iadd (zeros_like cont) r = Inl ValueError"
      using z0 r(2) s by (rule iadd_row_stack_error)
    with True r show ?thesis
      by (simp add: apply_scattering_def Let_def bind_err_def)
  next
    case False
    with rm have m: Mie by simp
    have "broadcast_shapes (shape ?fM) (shape (tau0M cb lam)) = Some (s @ [length lam])"
      using fs tM by simp
    then obtain r where r: "broadcast2 (*) ?fM (tau0M cb lam) = Inr r"
      "shape r = s @ [length lam]"
      using broadcast2_shape by blast
    have "iadd (zeros_like cont) r = Inl ValueError"
      using z0 r(2) s by (rule iadd_row_stack_error)
    with False m r show ?thesis
      by (simp add: apply_scattering_def Let_def bind_err_def)
  qed
qed

lemma airglow_pipeline_unabsorbed_error:
  assumes ok: "collaborators_ok cb atm lam p H" and rm: "Rayleigh \<or> Mie"
    and z: "shape z = s @ [1]" and s: "s \<noteq> []"
  shows "airglow_pipeline cb atm lam z p H Rayleigh Mie False = Inl ValueError"
proof -
  let ?c = "resample_density (resample_row cb) lam (wavelength atm) (array1 (airglow_cont atm))"
  let ?l = "resample_density (resample_row cb) lam (wavelength atm) (array1 (airglow_line atm))"
  from ok have t: "shape (tau0R cb lam p H) = [length lam]" "shape (tau0M cb lam) = [length lam]"
    by (simp_all add: collaborators_ok_def)
  have "shape ?c = [length lam]"
    by (simp add: resample_density_def array1_def)
  then have "apply_scattering cb lam z p H Rayleigh Mie (airmass_ag z) ?c ?l = Inl ValueError"
    using rm z s t by (intro apply_scattering_unabsorbed_error)
  with rm show ?thesis
    by (simp add: airglow_pipeline_def Let_def bind_err_Inr)
qed

text \<open>
  Whenever at least one of the three switches is on, the compressed path gives what
  the calculation without deduplication gives: the same arrays when absorption is
  enabled, the same ValueError of \<^verbatim>\<open>tau0 += ...\<close> when it is not.
\<close>

lemma get_airglow_compressed_eq_uncompressed:
  assumes ok: "collaborators_rowwise cb atm lam p H" and wf: "wf_nd z"
    and l1: "last (shape z) = 1"
    and cm: "4 * size_nd (unique z) < 3 * size_nd z"
    and sw: "absorption \<or> Rayleigh \<or> Mie"
  shows "get_airglow cb atm lam z p H Rayleigh Mie absorption
    = airglow_pipeline cb atm lam z p H Rayleigh Mie absorption"
proof -
  from wf cm have ne: "shape z \<noteq> []" using wf_scalar_not_compressed by blast
  with l1 have sh: "shape z = butlast (shape z) @ [1]" by (metis append_butlast_last_id)
  show ?thesis
  proof (cases absorption)
    case True
    from sh have "prod_list (shape z) = prod_list (butlast (shape z) @ [1])" by (rule arg_cong)
    with wf have n: "length (data z) = prod_list (butlast (shape z))" by (simp add: wf_nd_def)
    have "airglow_pipeline cb atm lam (column (butlast (shape z)) (data z)) p H Rayleigh Mie True
        = get_airglow cb atm lam z p H Rayleigh Mie True"
      unfolding get_airglow_column [OF ok wf ne l1] using ok n by (rule airglow_pipeline_column)
    with True column_eq [OF sh] show ?thesis by simp
  next
    case False
    with sw have rm: "Rayleigh \<or> Mie" by simp
    from ok have ok': "collaborators_ok cb atm lam p H" by (simp add: collaborators_rowwise_def)
    have sne: "butlast (shape z) \<noteq> []"
    proof
      assume e: "butlast (shape z) = []"
      with sh have "shape z = [1]" by simp
      with wf have "length (data z) = 1" "size_nd z = 1" by (simp_all add: wf_nd_def size_nd_def)
      then obtain x where "data z = [x]" by (cases "data z") auto
      then have "size_nd (unique z) = 1" by (simp add: unique_def array1_def size_nd_def)
      with cm \<open>size_nd z = 1\<close> show False by simp
    qed
    have direct: "airglow_pipeline cb atm lam z p H Rayleigh Mie False = Inl ValueError"
      using ok' rm sh sne by (rule airglow_pipeline_unabsorbed_error)
    have cz: "compress_z z = Inr (reshape_col (unique z),
        Some (searchsorted (unique z) (z\<lparr>shape := butlast (shape z)\<rparr>)))"
      using cm ne l1 by (rule compress_z_compressed)
    have "airglow_pipeline cb atm lam (reshape_col (unique z)) p H Rayleigh Mie False
        = Inl ValueError"
    proof (rule airglow_pipeline_unabsorbed_error [OF ok' rm])
      show "shape (reshape_col (unique z)) = [length (data (unique z))] @ [1]"
        by (simp add: reshape_col_def)
      show "[length (data (unique z))] \<noteq> []"
        by simp
    qed
    with cz direct False show ?thesis
      by (simp add: get_airglow_def bind_err_def)
  qed
qed

lemma src_index_row_row: "k < m \<Longrightarrow> src_index [m] [m] k = k"
  using src_index_same [of k "[m]"] by simp

lemma broadcast2_row_scalar:
  "broadcast2 f (array1 ts) (scalar x) = Inr (array1 (map (\<lambda>t. f t x) ts))"
proof -
  have e: "map (\<lambda>k. f (ts ! src_index [length ts] [length ts] k) x) [0..<length ts]
      = map (\<lambda>t. f t x) ts"
    by (rule nth_equalityI) (simp_all add: src_index_row_row)
  show ?thesis
    by (simp add: broadcast2_def array1_def scalar_def src_index_Nil e)
qed

lemma broadcast2_scalar_row:
  "broadcast2 f (scalar x) (array1 ts) = Inr (array1 (map (f x) ts))"
proof -
  have e: "map (\<lambda>k. f x (ts ! src_index [length ts] [length ts] k)) [0..<length ts]
      = map (f x) ts"
    by (rule nth_equalityI) (simp_all add: src_index_row_row)
  show ?thesis
    by (simp add: broadcast2_def array1_def scalar_def src_index_Nil e)
qed

lemma broadcast2_row_row:
  assumes "length bs = length as"
  shows "broadcast2 f (array1 as) (array1 bs) = Inr (array1 (map2 f as bs))"
proof -
  have e: "map (\<lambda>k. f (as ! src_index [length as] [length as] k)
                  (bs ! src_index [length as] [length as] k)) [0..<length as]
      = map2 f as bs"
    using assms by (intro nth_equalityI) (simp_all add: src_index_row_row)
  show ?thesis
    using assms by (simp add: broadcast2_def array1_def e)
qed

lemma iadd_row_row:
  assumes "length bs = length as"
  shows "iadd (array1 as) (array1 bs) = Inr (array1 (map2 (+) as bs))"
  using broadcast2_row_row [OF assms, of "(+)"] assms by (simp add: iadd_def array1_def)

lemma resample_density_row:
  "length (rs lam src xs) = length lam
    \<Longrightarrow> resample_density rs lam src (array1 xs) = array1 (rs lam src xs)"
  by (simp add: resample_density_def rows_nd_def array1_def)

lemma airglow_pipeline_scalar:
  assumes ok: "collaborators_rowwise cb atm lam p H"
  shows "airglow_pipeline cb atm lam (scalar v) p H Rayleigh Mie True
    = Inr (array1 (airglow_row cb atm lam p H Rayleigh Mie (airglow_cont atm) v),
           array1 (airglow_row cb atm lam p H Rayleigh Mie (airglow_line atm) v))"
proof -
  let ?L = "length lam" and ?tm = "trans_ma atm" and ?X = "airmass_at v"
  let ?A = "\<lambda>col. map2 (*) col (map (\<lambda>t. t powr ?X) ?tm)"
  let ?R = "\<lambda>col. resample_row cb lam (wavelength atm) (?A col)"
  let ?tR = "data (tau0R cb lam p H)" and ?tM = "data (tau0M cb lam)"
  let ?t0 = "replicate ?L (0::real)"
  let ?t1 = "if Rayleigh then map2 (+) ?t0 (map ((*) (1.669 * log 10 ?X - 0.146)) ?tR) else ?t0"
  let ?t2 = "if Mie then map2 (+) ?t1 (map ((*) (1.732 * log 10 ?X - 0.318)) ?tM) else ?t1"
  let ?S = "scattering_row cb lam p H Rayleigh Mie v"
  from ok have c: "length (airglow_cont atm) = length ?tm"
    and l: "length (airglow_line atm) = length ?tm"
    and tR: "shape (tau0R cb lam p H) = [?L]" "wf_nd (tau0R cb lam p H)"
    and tM: "shape (tau0M cb lam) = [?L]" "wf_nd (tau0M cb lam)"
    and rs: "\<forall>values. length (resample_row cb lam (wavelength atm) values) = ?L"
    by (simp_all add: collaborators_rowwise_def collaborators_ok_def)
  from tR have R: "tau0R cb lam p H = array1 ?tR" "length ?tR = ?L"
    using array1_wf by blast+
  from tM have M: "tau0M cb lam = array1 ?tM" "length ?tM = ?L"
    using array1_wf by blast+
  have a: "apply_absorption atm (scalar ?X) (array1 (airglow_cont atm)) (array1 (airglow_line atm))
      = Inr (array1 (?A (airglow_cont atm)), array1 (?A (airglow_line atm)))"
    using c l
    by (simp add: apply_absorption_def broadcast2_row_scalar broadcast2_row_row bind_err_Inr)
  have r: "resample_density (resample_row cb) lam (wavelength atm) (array1 (?A col))
      = array1 (?R col)" for col
    using rs by (intro resample_density_row) simp
  have f: "fst (airglow_scattering (scalar v)) = scalar (1.669 * log 10 ?X - 0.146)"
    "snd (airglow_scattering (scalar v)) = scalar (1.732 * log 10 ?X - 0.318)"
    by (simp_all add: airglow_scattering_def Let_def airmass_ag_eq)
  have z: "zeros_like (array1 (?R col)) = array1 ?t0" for col
    using rs by (simp add: zeros_like_def ufunc_def array1_def map_replicate_const)
  have s1: "(if Rayleigh
             then bind_err (broadcast2 (*) (scalar (1.669 * log 10 ?X - 0.146)) (tau0R cb lam p H))
                    (iadd (array1 ?t0))
             else Inr (array1 ?t0)) = Inr (array1 ?t1)"
    using R(2) by (subst R(1)) (simp add: broadcast2_scalar_row bind_err_Inr iadd_row_row)
  have s2: "(if Mie
             then bind_err (broadcast2 (*) (scalar (1.732 * log 10 ?X - 0.318)) (tau0M cb lam))
                    (iadd (array1 ?t1))
             else Inr (array1 ?t1)) = Inr (array1 ?t2)"
    using R(2) M(2) by (subst M(1)) (simp add: broadcast2_scalar_row bind_err_Inr iadd_row_row)
  have e: "broadcast2 (*) (ufunc uminus (array1 ?t2)) (scalar ?X)
      = Inr (array1 (map (\<lambda>x. x * ?X) (map uminus ?t2)))"
    using broadcast2_row_scalar [of "(*)" "map uminus ?t2" ?X]
    by (simp add: ufunc_def array1_def)
  have S: "ufunc exp (array1 (map (\<lambda>x. x * ?X) (map uminus ?t2))) = array1 ?S"
    by (simp add: ufunc_def array1_def scattering_row_def Let_def)
  have lS: "length ?S = ?L"
    using R(2) M(2) by (simp add: length_scattering_row)
  have m: "broadcast2 (*) (array1 (?R col)) (array1 ?S) = Inr (array1 (map2 (*) (?R col) ?S))"
    for col
    using rs lS by (intro broadcast2_row_row) simp
  have sc: "apply_scattering cb lam (scalar v) p H Rayleigh Mie (scalar ?X)
        (array1 (?R (airglow_cont atm))) (array1 (?R (airglow_line atm)))
      = Inr (array1 (map2 (*) (?R (airglow_cont atm)) ?S),
             array1 (map2 (*) (?R (airglow_line atm)) ?S))"
    unfolding apply_scattering_def Let_def f z
    by (simp only: s1 s2 e S m bind_err_Inr)
  show ?thesis
  proof (cases "Rayleigh \<or> Mie")
    case True
    with a r sc show ?thesis
      by (simp add: airglow_pipeline_def Let_def bind_err_Inr airmass_ag_eq airglow_row_def)
  next
    case False
    with a r show ?thesis
      by (simp add: airglow_pipeline_def Let_def bind_err_Inr airmass_ag_eq airglow_row_def)
  qed
qed

lemma get_airglow_scalar:
  assumes ok: "collaborators_rowwise cb atm lam p H"
  shows "get_airglow cb atm lam (scalar v) p H Rayleigh Mie True
    = Inr (array1 (airglow_row cb atm lam p H Rayleigh Mie (airglow_cont atm) v),
           array1 (airglow_row cb atm lam p H Rayleigh Mie (airglow_line atm) v))"
proof -
  have "compress_z (scalar v) = Inr (scalar v, None)"
    by (simp add: compress_z_def Let_def unique_def array1_def size_nd_def scalar_def)
  then show ?thesis
    using airglow_pipeline_scalar [OF ok, of v Rayleigh Mie]
    by (simp add: get_airglow_def bind_err_Inr assemble_output_def)
qed

text \<open>
  The case of the tests: with absorption enabled, \<open>z = np.zeros((3, 1))\<close> gives three
  times the spectrum that the scalar \<open>z = 0\<close> gives.
\<close>

lemma get_airglow_zeros_3_1:
  assumes ok: "collaborators_rowwise cb atm lam p H"
  shows "\<exists>c l. get_airglow cb atm lam (scalar 0) p H Rayleigh Mie True
           = Inr (array1 c, array1 l)
         \<and> get_airglow cb atm lam \<lparr>shape = [3, 1], data = [0, 0, 0]\<rparr> p H Rayleigh Mie True
           = Inr (\<lparr>shape = [3, length lam], data = c @ c @ c\<rparr>,
                  \<lparr>shape = [3, length lam], data = l @ l @ l\<rparr>)"
proof -
  have "get_airglow cb atm lam \<lparr>shape = [3, 1], data = [0, 0, 0]\<rparr> p H Rayleigh Mie True
      = Inr (stacked [3] (length lam)
               (airglow_row cb atm lam p H Rayleigh Mie (airglow_cont atm)) [0, 0, 0],
             stacked [3] (length lam)
               (airglow_row cb atm lam p H Rayleigh Mie (airglow_line atm)) [0, 0, 0])"
    using get_airglow_column [OF ok, of "\<lparr>shape = [3, 1], data = [0, 0, 0]\<rparr>" Rayleigh Mie]
    by (simp add: wf_nd_def)
  then show ?thesis
    using get_airglow_scalar [OF ok, of 0 Rayleigh Mie]
    by (intro exI [of _ "airglow_row cb atm lam p H Rayleigh Mie (airglow_cont atm) 0"]
        exI [of _ "airglow_row cb atm lam p H Rayleigh Mie (airglow_line atm) 0"])
      (simp add: stacked_def)
qed

end
